theory Spec2Isabelle
  imports Main "HOL-Library.Word"
begin

unbundle bit_operations_syntax

section \<open>The PM4 command processor of video\_core/amdgpu/liverpool.cpp\<close>

text \<open>
  The development embeds \<^verbatim>\<open>Liverpool::ProcessCmdList\<close>: the loop that walks a command
  buffer packet by packet, the switch over the packet type and the type-3 opcode, and the
  effect of every opcode on the register file, on memory and on the collaborators
  (rasterizer, interrupt controller, fences).
\<close>

subsection \<open>Machine words and memory\<close>

type_synonym u8 = "8 word"
type_synonym u32 = "32 word"
type_synonym u64 = "64 word"

text \<open>
  Pointers are 64-bit byte addresses into one flat memory: the command buffer, the
  destination of a write-data packet and the word polled by a wait-reg-mem packet all
  live there, so a packet may overwrite memory that a later packet reads.
\<close>

type_synonym memory = "u64 \<Rightarrow> u8"

text \<open>Reading a \<^verbatim>\<open>u32\<close> through a pointer (little endian).\<close>

definition load32 :: "memory \<Rightarrow> u64 \<Rightarrow> u32" where
  "load32 m a =
     ucast (m a) OR push_bit 8 (ucast (m (a + 1))) OR
     push_bit 16 (ucast (m (a + 2))) OR push_bit 24 (ucast (m (a + 3)))"

text \<open>The \<open>n\<close> consecutive words that start at address \<open>a\<close>.\<close>

definition load_words :: "memory \<Rightarrow> u64 \<Rightarrow> nat \<Rightarrow> u32 list" where
  "load_words m a n = map (\<lambda>i. load32 m (a + 4 * of_nat i)) [0..<n]"

text \<open>
  \<^verbatim>\<open>std::memcpy(dst, src, n)\<close> between two places of memory: byte \<open>i < n\<close> of the
  destination receives byte \<open>i\<close> of the source as it was before the call. (For ranges
  that overlap the C++ call is undefined; the model reads the source first.)
\<close>

definition memcpy :: "memory \<Rightarrow> u64 \<Rightarrow> u64 \<Rightarrow> nat \<Rightarrow> memory" where
  "memcpy m dst src n = (\<lambda>a. if unat (a - dst) < n then m (src + (a - dst)) else m a)"

subsection \<open>Fatal conditions\<close>

text \<open>
  Modelled from the spec: the macros \<^verbatim>\<open>ASSERT\<close>, \<^verbatim>\<open>UNREACHABLE\<close> and
  \<^verbatim>\<open>UNREACHABLE_MSG\<close> come from common/assert.h, which is not among the sources. The
  spec calls every such condition fatal and non-recoverable, so each is an error value
  that ends the run. \<open>OutOfRange\<close> stands for a \<^verbatim>\<open>memcpy\<close> that would leave
  \<^verbatim>\<open>regs.reg_array\<close>, which the C++ does not check (undefined behaviour).
\<close>

datatype error = AssertionFailed | Unreachable | OutOfRange

subsection \<open>Opcodes and collaborators\<close>

text \<open>
  The opcodes that the switch of \<^verbatim>\<open>ProcessCmdList\<close> names, in the order of their
  cases; every other value of the enumeration is \<open>OtherOpcode\<close> and reaches the
  \<^verbatim>\<open>default\<close> branch.
\<close>

datatype PM4ItOpcode =
    Nop | SetContextReg | SetShReg | SetUconfigReg | IndexType | DrawIndex2
  | DrawIndexAuto | DispatchDirect | EventWriteEos | EventWriteEop | DmaData
  | WriteData | AcquireMem | WaitRegMem | OtherOpcode u32

text \<open>
  Calls that leave the command processor, recorded in the order they are made:
  \<^verbatim>\<open>Platform::IrqC::Instance()->Signal(Platform::InterruptId::GfxFlip)\<close>,
  \<^verbatim>\<open>rasterizer->DrawIndex()\<close>, and \<^verbatim>\<open>SignalFence()\<close> of the end-of-shader and
  end-of-pipe packets (with the address of the packet).
\<close>

datatype call =
    IrqC_Signal_GfxFlip | Rasterizer_DrawIndex
  | EventWriteEos_SignalFence u64 | EventWriteEop_SignalFence u64

subsection \<open>The register file and the state of the processor\<close>

text \<open>
  Modelled from the spec: \<^verbatim>\<open>Liverpool::regs\<close> is declared in liverpool.h, which is
  not among the sources. Following the spec (sections 2 and 3) it is a flat array of 32-bit
  words, \<^verbatim>\<open>reg_array\<close>, together with the dedicated fields of indexed draw state that
  \<^verbatim>\<open>ProcessCmdList\<close> assigns by name. \<open>base_addr_hi\<close> holds the value of the
  bit field \<^verbatim>\<open>index_base_address.base_addr_hi\<close>.
\<close>

record Regs =
  reg_array :: "u32 list"
  index_buffer_type_raw :: u32
  max_index_size :: u32
  base_addr_lo :: u32
  base_addr_hi :: u32
  num_indices :: u32
  draw_initiator :: u32

text \<open>
  The state that \<^verbatim>\<open>ProcessCmdList\<close> reads and writes: the members \<^verbatim>\<open>regs\<close> and
  \<^verbatim>\<open>rasterizer\<close> (a pointer; \<open>True\<close> when it is not null), memory, the calls made
  to collaborators so far, and the number of \<^verbatim>\<open>sleep_for\<close> calls made so far.
\<close>

record state =
  regs :: Regs
  rasterizer :: bool
  mem :: memory
  calls :: "call list"
  sleeps :: nat

subsection \<open>Declarations that the source uses and does not contain\<close>

text \<open>
  The packet structures of video\_core/amdgpu/pm4\_cmds.h and the constants of
  liverpool.h are not among the sources. Each member that \<^verbatim>\<open>ProcessCmdList\<close> reads is
  a parameter: the header members are functions of the header word (the spec, section 3: the
  header is the first word of a packet); the members of the other packet structures are
  functions of memory and of the address of the packet. \<open>sleep_for\<close> is the
  environment of \<^verbatim>\<open>std::this_thread::sleep_for(1ms)\<close>: what the other threads write
  to memory while the processor sleeps for the \<open>k\<close>-th time.
\<close>

record decls =
  hdr_type :: "u32 \<Rightarrow> u32"
  hdr_opcode :: "u32 \<Rightarrow> PM4ItOpcode"
  hdr_count :: "u32 \<Rightarrow> u32"
  hdr_NumWords :: "u32 \<Rightarrow> u32"
  nop_data_block0 :: "memory \<Rightarrow> u64 \<Rightarrow> u32"
  PatchedFlip :: u32
  set_data_reg_offset :: "memory \<Rightarrow> u64 \<Rightarrow> u32"
  ContextRegWordOffset :: u32
  ShRegWordOffset :: u32
  UconfigRegWordOffset :: u32
  index_type_raw :: "memory \<Rightarrow> u64 \<Rightarrow> u32"
  draw_index2_max_size :: "memory \<Rightarrow> u64 \<Rightarrow> u32"
  draw_index2_index_base_lo :: "memory \<Rightarrow> u64 \<Rightarrow> u32"
  draw_index2_index_base_hi :: "memory \<Rightarrow> u64 \<Rightarrow> u32"
  draw_index2_index_count :: "memory \<Rightarrow> u64 \<Rightarrow> u32"
  draw_index2_draw_initiator :: "memory \<Rightarrow> u64 \<Rightarrow> u32"
  base_addr_hi_bits :: nat
  draw_index_auto_index_count :: "memory \<Rightarrow> u64 \<Rightarrow> u32"
  draw_index_auto_draw_initiator :: "memory \<Rightarrow> u64 \<Rightarrow> u32"
  event_eos_SignalFence :: "memory \<Rightarrow> u64 \<Rightarrow> memory"
  event_eop_SignalFence :: "memory \<Rightarrow> u64 \<Rightarrow> memory"
  write_data_dst_sel :: "memory \<Rightarrow> u64 \<Rightarrow> u32"
  write_data_wr_one_addr :: "memory \<Rightarrow> u64 \<Rightarrow> u32"
  write_data_Address :: "memory \<Rightarrow> u64 \<Rightarrow> u64"
  write_data_data :: "u64 \<Rightarrow> u64"
  wait_reg_mem_engine :: "memory \<Rightarrow> u64 \<Rightarrow> u32"
  Engine_Me :: u32
  wait_reg_mem_Test :: "memory \<Rightarrow> u64 \<Rightarrow> bool"
  sleep_for :: "nat \<Rightarrow> memory \<Rightarrow> memory"

subsection \<open>The cases of the opcode switch\<close>

text \<open>
  \<^verbatim>\<open>std::memcpy(&regs.reg_array[base + set_data->reg_offset], header + 2,
  (count - 1) * sizeof(u32))\<close>, the body shared by the three set-register cases. The index
  and \<open>count - 1\<close> are computed on \<^verbatim>\<open>u32\<close>.
\<close>

definition set_reg :: "decls \<Rightarrow> u32 \<Rightarrow> u64 \<Rightarrow> state \<Rightarrow> error + state" where
  "set_reg d base header s =
     (let count = hdr_NumWords d (load32 (mem s) header);
          idx = unat (base + set_data_reg_offset d (mem s) header);
          n = unat (count - 1);
          ra = reg_array (regs s)
      in if idx + n \<le> length ra
         then Inr (s\<lparr>regs := (regs s)\<lparr>reg_array :=
                 take idx ra @ load_words (mem s) (header + 8) n @ drop (idx + n) ra\<rparr>\<rparr>)
         else Inl OutOfRange)"

text \<open>One \<^verbatim>\<open>sleep_for(1ms)\<close>: the other threads run, and the call is counted.\<close>

definition sleep :: "decls \<Rightarrow> state \<Rightarrow> state" where
  "sleep d s = s\<lparr>mem := sleep_for d (sleeps s) (mem s), sleeps := Suc (sleeps s)\<rparr>"

text \<open>
  \<^verbatim>\<open>while (!wait_reg_mem->Test()) { sleep_for(1ms); }\<close>. The loop has no bound:
  \<open>None\<close> is the run that polls forever.
\<close>

partial_function (option) wait_loop :: "decls \<Rightarrow> u64 \<Rightarrow> state \<Rightarrow> state option" where
  "wait_loop d header s =
     (if wait_reg_mem_Test d (mem s) header then Some s
      else wait_loop d header (sleep d s))"

text \<open>The switch over the opcode of a type-3 packet (the inner \<^verbatim>\<open>switch (opcode)\<close>).\<close>

definition type3 :: "decls \<Rightarrow> u64 \<Rightarrow> state \<Rightarrow> (error + state) option" where
  "type3 d header s =
     (let m = mem s; w = load32 m header in
      case hdr_opcode d w of
        Nop \<Rightarrow>
          if hdr_count d w = 0 then Some (Inr s)
          else if nop_data_block0 d m header = PatchedFlip d
          then Some (Inr (s\<lparr>calls := calls s @ [IrqC_Signal_GfxFlip]\<rparr>))
          else Some (Inr s)
      | SetContextReg \<Rightarrow> Some (set_reg d (ContextRegWordOffset d) header s)
      | SetShReg \<Rightarrow> Some (set_reg d (ShRegWordOffset d) header s)
      | SetUconfigReg \<Rightarrow> Some (set_reg d (UconfigRegWordOffset d) header s)
      | IndexType \<Rightarrow>
          Some (Inr (s\<lparr>regs := (regs s)\<lparr>index_buffer_type_raw := index_type_raw d m header\<rparr>\<rparr>))
      | DrawIndex2 \<Rightarrow>
          (let r = (regs s)
                 \<lparr>max_index_size := draw_index2_max_size d m header,
                  base_addr_lo := draw_index2_index_base_lo d m header,
                  base_addr_hi :=
                    take_bit (base_addr_hi_bits d) (draw_index2_index_base_hi d m header),
                  num_indices := draw_index2_index_count d m header,
                  draw_initiator := draw_index2_draw_initiator d m header\<rparr>
           in if rasterizer s
              then Some (Inr (s\<lparr>regs := r, calls := calls s @ [Rasterizer_DrawIndex]\<rparr>))
              else Some (Inr (s\<lparr>regs := r\<rparr>)))
      | DrawIndexAuto \<Rightarrow>
          Some (Inr (s\<lparr>regs := (regs s)
                 \<lparr>num_indices := draw_index_auto_index_count d m header,
                  draw_initiator := draw_index_auto_draw_initiator d m header\<rparr>\<rparr>))
      | DispatchDirect \<Rightarrow> Some (Inr s)
      | EventWriteEos \<Rightarrow>
          Some (Inr (s\<lparr>mem := event_eos_SignalFence d m header,
                        calls := calls s @ [EventWriteEos_SignalFence header]\<rparr>))
      | EventWriteEop \<Rightarrow>
          Some (Inr (s\<lparr>mem := event_eop_SignalFence d m header,
                        calls := calls s @ [EventWriteEop_SignalFence header]\<rparr>))
      | DmaData \<Rightarrow> Some (Inr s)
      | WriteData \<Rightarrow>
          if \<not> (write_data_dst_sel d m header = 2 \<or> write_data_dst_sel d m header = 5)
          then Some (Inl AssertionFailed)
          else
            (let data_size = (hdr_count d w - 2) * 4 in
             if write_data_wr_one_addr d m header = 0
             then Some (Inr (s\<lparr>mem := memcpy m (write_data_Address d m header)
                                         (write_data_data d header) (unat data_size)\<rparr>))
             else Some (Inl Unreachable))
      | AcquireMem \<Rightarrow> Some (Inr s)
      | WaitRegMem \<Rightarrow>
          if wait_reg_mem_engine d m header \<noteq> Engine_Me d then Some (Inl AssertionFailed)
          else map_option Inr (wait_loop d header s)
      | OtherOpcode x \<Rightarrow> Some (Inl Unreachable))"

subsection \<open>The decode loop\<close>

text \<open>
  The locals of the loop: \<^verbatim>\<open>header\<close>, \<^verbatim>\<open>processed_cmd_size\<close>, and the state of the
  processor.
\<close>

type_synonym cursor = "u64 \<times> u32 \<times> state"

text \<open>
  The end of an iteration for a type-3 packet whose case returned:
  \<^verbatim>\<open>next_header = header + header->type3.NumWords() + 1\<close> (the header is read again,
  from memory as the case left it; pointer arithmetic in units of one 32-bit header), then
  \<^verbatim>\<open>processed_cmd_size += uintptr_t(next_header) - uintptr_t(header)\<close>, which adds a
  64-bit difference to a \<^verbatim>\<open>u32\<close>, and \<^verbatim>\<open>header = next_header\<close>.
\<close>

definition advance :: "decls \<Rightarrow> u64 \<Rightarrow> u32 \<Rightarrow> state \<Rightarrow> cursor" where
  "advance d header processed_cmd_size s =
     (let next_header = header + 4 * ucast (hdr_NumWords d (load32 (mem s) header)) + 4
      in (next_header, processed_cmd_size + ucast (next_header - header), s))"

text \<open>
  One iteration of the body of \<^verbatim>\<open>while (processed_cmd_size < size_in_bytes)\<close>: the
  switch over the packet type, with the opcode switch inside its case 3.
\<close>

definition body :: "decls \<Rightarrow> cursor \<Rightarrow> (error + cursor) option" where
  "body d c =
     (case c of (header, processed_cmd_size, s) \<Rightarrow>
        if hdr_type d (load32 (mem s) header) = 3
        then (case type3 d header s of
                None \<Rightarrow> None
              | Some (Inl e) \<Rightarrow> Some (Inl e)
              | Some (Inr s') \<Rightarrow> Some (Inr (advance d header processed_cmd_size s')))
        else Some (Inl Unreachable))"

partial_function (option) cmd_loop :: "decls \<Rightarrow> u32 \<Rightarrow> cursor \<Rightarrow> (error + cursor) option"
where
  "cmd_loop d size_in_bytes c =
     (if fst (snd c) < size_in_bytes
      then (case body d c of
              None \<Rightarrow> None
            | Some (Inl e) \<Rightarrow> Some (Inl e)
            | Some (Inr c') \<Rightarrow> cmd_loop d size_in_bytes c')
      else Some (Inr c))"

text \<open>
  \<^verbatim>\<open>void Liverpool::ProcessCmdList(const u32* cmdbuf, u32 size_in_bytes)\<close>. The C++
  returns nothing; the model returns the locals as the loop left them, so that the final
  cursor can be spoken about, or the fatal condition that ended the run, or \<open>None\<close>
  when the run never ends.
\<close>

definition ProcessCmdList :: "decls \<Rightarrow> u64 \<Rightarrow> u32 \<Rightarrow> state \<Rightarrow> (error + cursor) option" where
  "ProcessCmdList d cmdbuf size_in_bytes s = cmd_loop d size_in_bytes (cmdbuf, 0, s)"

subsection \<open>The run of the loop\<close>

text \<open>
  The cursors at which the loop stands at its head, starting from \<open>c0\<close>: the start,
  and the cursor that a returning iteration leaves when the loop condition held.
\<close>

inductive reach :: "decls \<Rightarrow> u32 \<Rightarrow> cursor \<Rightarrow> cursor \<Rightarrow> bool" for d size_in_bytes c0 where
  reach_start: "reach d size_in_bytes c0 c0"
| reach_next:
    "reach d size_in_bytes c0 c \<Longrightarrow> fst (snd c) < size_in_bytes \<Longrightarrow>
     body d c = Some (Inr c') \<Longrightarrow> reach d size_in_bytes c0 c'"

text \<open>
  A buffer is well formed for a run when its packets tile it: every packet that the loop
  decodes ends within the \<open>size_in_bytes\<close> bytes of the buffer.
\<close>

definition packets_fit :: "decls \<Rightarrow> u32 \<Rightarrow> cursor \<Rightarrow> bool" where
  "packets_fit d size_in_bytes c0 \<longleftrightarrow>
     (\<forall>c c'. reach d size_in_bytes c0 c \<longrightarrow> fst (snd c) < size_in_bytes \<longrightarrow>
        body d c = Some (Inr c') \<longrightarrow>
        unat (fst (snd c)) + unat (fst c' - fst c) \<le> unat size_in_bytes)"

text \<open>
  The weaker condition that matters for termination: no packet that the loop decodes takes
  the processed count, a \<^verbatim>\<open>u32\<close>, beyond \<open>2^32 - 1\<close>.
\<close>

definition no_overflow :: "decls \<Rightarrow> u32 \<Rightarrow> cursor \<Rightarrow> bool" where
  "no_overflow d size_in_bytes c0 \<longleftrightarrow>
     (\<forall>c c'. reach d size_in_bytes c0 c \<longrightarrow> fst (snd c) < size_in_bytes \<longrightarrow>
        body d c = Some (Inr c') \<longrightarrow>
        unat (fst (snd c)) + unat (fst c' - fst c) < 2 ^ 32)"

text \<open>The handler of every packet that the loop decodes returns or ends fatally.\<close>

definition handlers_terminate :: "decls \<Rightarrow> u32 \<Rightarrow> cursor \<Rightarrow> bool" where
  "handlers_terminate d size_in_bytes c0 \<longleftrightarrow>
     (\<forall>c. reach d size_in_bytes c0 c \<longrightarrow> fst (snd c) < size_in_bytes \<longrightarrow> body d c \<noteq> None)"

subsection \<open>The processing thread\<close>

text \<open>
  \<^verbatim>\<open>Liverpool::Process\<close> runs in its own thread while other threads submit buffers and
  the destructor requests the stop, so it is embedded as steps between program points:
  the loop test of line 23, the wait of line 27, the stop check of line 29 (the wait has
  returned and the lock is held), the pop of lines 33-34 (the check has passed), the decode
  of lines 37-38, the drain notification of lines 40-45, and the two ends: returned, or
  aborted by a fatal condition.
\<close>

type_synonym buffer = "u64 \<times> nat"

datatype ppoint =
    AtLoopTest | InWait | AtStopCheck | AtPop | AtDecode | AtNotify | Returned | Aborted error

text \<open>
  What the steps read and write: the stop state of the thread's \<^verbatim>\<open>std::stop_token\<close>,
  the queue \<^verbatim>\<open>gfx_ring\<close>, the local \<^verbatim>\<open>dcb\<close> (a span: data pointer and number of
  words; empty, \<open>(0, 0)\<close>, at the start of an iteration), the state of the command processor, and two records of what happened: the buffers
  popped so far, in order, and the number of \<^verbatim>\<open>cv_complete.notify_all()\<close> calls.
\<close>

record proc =
  pc :: ppoint
  stop_requested :: bool
  gfx_ring :: "buffer list"
  dcb :: buffer
  gpu :: state
  dequeued :: "buffer list"
  completes :: nat

text \<open>
  One step of the processing thread; \<open>None\<close> when it cannot move (blocked in the wait,
  inside a decode that never returns, or at an end).
  \<^item> \<^verbatim>\<open>cv_submit.wait(lock, stoken, pred)\<close> is the wait of the C++ standard library: it
    returns, holding the lock, as soon as the stop is requested or the predicate (the queue
    is not empty) holds, and blocks otherwise.
  \<^item> \<^verbatim>\<open>gfx_ring.front()\<close> on an empty queue is undefined; the step marks it
    \<open>OutOfRange\<close>.
  \<^item> \<^verbatim>\<open>ASSERT_MSG(!dcb.empty(), ...)\<close> is fatal for a span of no words; otherwise
    \<^verbatim>\<open>ProcessCmdList(dcb.data(), dcb.size_bytes())\<close> runs, the byte size converted to
    \<^verbatim>\<open>u32\<close>.
\<close>

definition Process_step :: "decls \<Rightarrow> proc \<Rightarrow> proc option" where
  "Process_step d c =
     (case pc c of
        AtLoopTest \<Rightarrow>
          if stop_requested c then Some (c\<lparr>pc := Returned\<rparr>)
          else Some (c\<lparr>pc := InWait, dcb := (0, 0)\<rparr>)
      | InWait \<Rightarrow>
          if stop_requested c \<or> gfx_ring c \<noteq> [] then Some (c\<lparr>pc := AtStopCheck\<rparr>) else None
      | AtStopCheck \<Rightarrow> Some (c\<lparr>pc := if stop_requested c then Returned else AtPop\<rparr>)
      | AtPop \<Rightarrow>
          (case gfx_ring c of
             [] \<Rightarrow> Some (c\<lparr>pc := Aborted OutOfRange\<rparr>)
           | b # bs \<Rightarrow>
               Some (c\<lparr>pc := AtDecode, dcb := b, gfx_ring := bs, dequeued := dequeued c @ [b]\<rparr>))
      | AtDecode \<Rightarrow>
          (case dcb c of (data, n) \<Rightarrow>
             if n = 0 then Some (c\<lparr>pc := Aborted AssertionFailed\<rparr>)
             else (case ProcessCmdList d data (of_nat (4 * n)) (gpu c) of
                     None \<Rightarrow> None
                   | Some (Inl e) \<Rightarrow> Some (c\<lparr>pc := Aborted e\<rparr>)
                   | Some (Inr r) \<Rightarrow> Some (c\<lparr>pc := AtNotify, gpu := snd (snd r)\<rparr>)))
      | AtNotify \<Rightarrow>
          Some (c\<lparr>pc := AtLoopTest,
                  completes := (if gfx_ring c = [] then Suc (completes c) else completes c)\<rparr>)
      | Returned \<Rightarrow> None
      | Aborted e \<Rightarrow> None)"

text \<open>
  The steps of the system. \<open>RequestStop\<close> is \<^verbatim>\<open>process_thread.request_stop()\<close>
  of the destructor (line 18): it latches the stop and takes no lock, so it can come
  between any two steps of the thread; the \<^verbatim>\<open>notify_one()\<close> of line 19 needs no step
  of its own, since the wait above is enabled whenever the stop is latched.

  Modelled from the spec: the submission of a buffer is not in liverpool.cpp. The spec
  (section 4.3) has \<open>Submit(buffer)\<close> append to the queue under exclusive access and wake
  the processing thread; here it appends whenever the processing thread does not hold
  \<^verbatim>\<open>m_ring_access\<close>, which it holds from the return of the wait to the pop.
\<close>

datatype event = Processor | RequestStop | Submit buffer

definition fire :: "decls \<Rightarrow> event \<Rightarrow> proc \<Rightarrow> proc option" where
  "fire d e c =
     (case e of
        Processor \<Rightarrow> Process_step d c
      | RequestStop \<Rightarrow> Some (c\<lparr>stop_requested := True\<rparr>)
      | Submit b \<Rightarrow>
          if pc c = AtStopCheck \<or> pc c = AtPop then None
          else Some (c\<lparr>gfx_ring := gfx_ring c @ [b]\<rparr>))"

text \<open>A schedule is the order in which the threads take their steps.\<close>

fun run :: "decls \<Rightarrow> event list \<Rightarrow> proc \<Rightarrow> proc option" where
  "run d [] c = Some c"
| "run d (e # es) c = (case fire d e c of None \<Rightarrow> None | Some c' \<Rightarrow> run d es c')"

subsection \<open>An instance of the declarations, and buffers to run\<close>

text \<open>
  The theorems below hold for every value of the declarations. To run the model on a
  concrete buffer one instance is fixed here; it follows the PM4 packet format: in the
  header the type is in bits 31..30, the count in bits 29..16 and the opcode in bits 15..8
  (with the opcode numbers of that format), \<open>NumWords\<close> is the count plus one, and
  the members of a packet are the words after the header in their order. In this instance
  the fences and \<open>sleep_for\<close> leave memory alone: no other thread writes.
\<close>

definition opcode_of :: "u32 \<Rightarrow> PM4ItOpcode" where
  "opcode_of x =
     (if x = 0x10 then Nop else if x = 0x69 then SetContextReg
      else if x = 0x76 then SetShReg else if x = 0x79 then SetUconfigReg
      else if x = 0x2A then IndexType else if x = 0x27 then DrawIndex2
      else if x = 0x2D then DrawIndexAuto else if x = 0x15 then DispatchDirect
      else if x = 0x48 then EventWriteEos else if x = 0x47 then EventWriteEop
      else if x = 0x50 then DmaData else if x = 0x37 then WriteData
      else if x = 0x58 then AcquireMem else if x = 0x3C then WaitRegMem
      else OtherOpcode x)"

definition addr64 :: "u32 \<Rightarrow> u32 \<Rightarrow> u64" where
  "addr64 lo hi = push_bit 32 (ucast hi) OR ucast lo"

definition wait_test :: "memory \<Rightarrow> u64 \<Rightarrow> bool" where
  "wait_test m header =
     (let function = take_bit 3 (load32 m (header + 4));
          v = load32 m (addr64 (load32 m (header + 8)) (load32 m (header + 12)))
              AND load32 m (header + 20);
          ref = load32 m (header + 16)
      in if function = 0 then True else if function = 1 then v < ref
         else if function = 2 then v \<le> ref else if function = 3 then v = ref
         else if function = 4 then v \<noteq> ref else if function = 5 then ref \<le> v
         else if function = 6 then ref < v else False)"

definition pm4 :: decls where
  "pm4 =
     \<lparr>hdr_type = (\<lambda>w. drop_bit 30 w),
      hdr_opcode = (\<lambda>w. opcode_of (take_bit 8 (drop_bit 8 w))),
      hdr_count = (\<lambda>w. take_bit 14 (drop_bit 16 w)),
      hdr_NumWords = (\<lambda>w. take_bit 14 (drop_bit 16 w) + 1),
      nop_data_block0 = (\<lambda>m header. load32 m (header + 4)),
      PatchedFlip = 0x68750777,
      set_data_reg_offset = (\<lambda>m header. take_bit 16 (load32 m (header + 4))),
      ContextRegWordOffset = 0xA000,
      ShRegWordOffset = 0x2C00,
      UconfigRegWordOffset = 0xC000,
      index_type_raw = (\<lambda>m header. load32 m (header + 4)),
      draw_index2_max_size = (\<lambda>m header. load32 m (header + 4)),
      draw_index2_index_base_lo = (\<lambda>m header. load32 m (header + 8)),
      draw_index2_index_base_hi = (\<lambda>m header. load32 m (header + 12)),
      draw_index2_index_count = (\<lambda>m header. load32 m (header + 16)),
      draw_index2_draw_initiator = (\<lambda>m header. load32 m (header + 20)),
      base_addr_hi_bits = 8,
      draw_index_auto_index_count = (\<lambda>m header. load32 m (header + 4)),
      draw_index_auto_draw_initiator = (\<lambda>m header. load32 m (header + 8)),
      event_eos_SignalFence = (\<lambda>m header. m),
      event_eop_SignalFence = (\<lambda>m header. m),
      write_data_dst_sel = (\<lambda>m header. take_bit 4 (drop_bit 8 (load32 m (header + 4)))),
      write_data_wr_one_addr = (\<lambda>m header. take_bit 1 (drop_bit 16 (load32 m (header + 4)))),
      write_data_Address =
        (\<lambda>m header. addr64 (load32 m (header + 8)) (load32 m (header + 12))),
      write_data_data = (\<lambda>header. header + 16),
      wait_reg_mem_engine = (\<lambda>m header. take_bit 1 (drop_bit 8 (load32 m (header + 4)))),
      Engine_Me = 0,
      wait_reg_mem_Test = wait_test,
      sleep_for = (\<lambda>k m. m)\<rparr>"

text \<open>Memory that holds the words \<open>ws\<close> from address \<open>base\<close> on, and zero elsewhere.\<close>

definition words_at :: "u64 \<Rightarrow> u32 list \<Rightarrow> memory" where
  "words_at base ws =
     (\<lambda>a. let i = unat (a - base) in
          if i < 4 * length ws then ucast (drop_bit (8 * (i mod 4)) (ws ! (i div 4))) else 0)"

text \<open>A processor whose registers are all zero and that has made no call yet.\<close>

definition fresh :: "bool \<Rightarrow> memory \<Rightarrow> state" where
  "fresh r m =
     \<lparr>regs = \<lparr>reg_array = replicate 0xD000 0, index_buffer_type_raw = 0, max_index_size = 0,
              base_addr_lo = 0, base_addr_hi = 0, num_indices = 0, draw_initiator = 0\<rparr>,
      rasterizer = r, mem = m, calls = [], sleeps = 0\<rparr>"

text \<open>
  The same declarations with another thread at work: during the second sleep of the
  processor it brings memory to \<open>wait_set_buf\<close>, a wait-reg-mem packet followed by
  the word that the packet polls, which is 1 there.
\<close>

definition wait_set_buf :: memory where
  "wait_set_buf = words_at 0 [0xC0053C00, 3, 28, 0, 1, 0xFFFFFFFF, 10, 1]"

definition pm4_env :: decls where
  "pm4_env = pm4\<lparr>sleep_for := (\<lambda>k m. if k = 1 then wait_set_buf else m)\<rparr>"

text \<open>
  Buffers at address 0. \<open>ok_buf\<close>: a no-op with count 0 (two words) and a no-op with
  count 1 that carries the flip marker (three words), 20 bytes. \<open>over_buf\<close>: a no-op
  whose header declares count 3, that is five words, in a buffer of two words.
\<close>

definition ok_buf :: memory where
  "ok_buf = words_at 0 [0xC0001000, 0, 0xC0011000, 0x68750777, 0]"

definition ok_final :: state where
  "ok_final = (fresh False ok_buf)\<lparr>calls := [IrqC_Signal_GfxFlip]\<rparr>"

definition over_buf :: memory where
  "over_buf = words_at 0 [0xC0031000, 0]"

text \<open>
  One packet each: draw-index-2 (max size 100, base 0x1000 and 2, 36 indices), set-context-reg
  (offset 0x10, words 0xAA and 0xBB), dispatch-direct, a header of type 0, a type-3 header
  with the opcode 0xFF that the switch does not name.
\<close>

definition draw_buf :: memory where
  "draw_buf = words_at 0 [0xC0042700, 100, 0x1000, 2, 36, 0]"

definition setctx_buf :: memory where
  "setctx_buf = words_at 0 [0xC0026900, 0x10, 0xAA, 0xBB]"


definition type0_buf :: memory where
  "type0_buf = words_at 0 [0x00001234, 0]"

definition unknown_buf :: memory where
  "unknown_buf = words_at 0 [0xC000FF00, 0]"

text \<open>
  Write-data packets with two data words for address 0x100: destination selector 5;
  selector 1; selector 5 with the single-address mode set.
\<close>

definition write_buf :: memory where
  "write_buf = words_at 0 [0xC0043700, 0x500, 0x100, 0, 0x11223344, 0x55667788]"

definition write_sel_buf :: memory where
  "write_sel_buf = words_at 0 [0xC0043700, 0x100, 0x100, 0, 0x11223344, 0x55667788]"

definition write_one_buf :: memory where
  "write_one_buf = words_at 0 [0xC0043700, 0x10500, 0x100, 0, 0x11223344, 0x55667788]"

text \<open>
  Wait-reg-mem packets that poll the word at address 28 for equality with 1 under the mask
  0xFFFFFFFF: with the word still 0 (in \<open>wait_set_buf\<close> it is 1), and with the engine
  field set to 1.
\<close>

definition wait_buf :: memory where
  "wait_buf = words_at 0 [0xC0053C00, 3, 28, 0, 1, 0xFFFFFFFF, 10, 0]"

definition wait_engine_buf :: memory where
  "wait_engine_buf = words_at 0 [0xC0053C00, 0x103, 28, 0, 1, 0xFFFFFFFF, 10, 0]"


text \<open>
  The processing thread at its loop test with \<open>ok_buf\<close> submitted; blocked in the wait
  on an empty queue with the stop latched; and at the pop with the stop latched.
\<close>

definition race_start :: proc where
  "race_start =
     \<lparr>pc = AtLoopTest, stop_requested = False, gfx_ring = [(0, 5)], dcb = (0, 0),
      gpu = fresh False ok_buf, dequeued = [], completes = 0\<rparr>"

definition idle_stopped :: proc where
  "idle_stopped = race_start\<lparr>pc := InWait, stop_requested := True, gfx_ring := []\<rparr>"

definition race_popping :: proc where
  "race_popping = race_start\<lparr>pc := AtPop, stop_requested := True\<rparr>"

section \<open>Auxiliary facts\<close>

subsection \<open>Word arithmetic of the cursor\<close>

lemma unat_u32_less: "unat (n :: u32) < 4294967296"
  using unsigned_less [of n, where 'a = nat] by simp

lemma unat_ucast_u32_u64: "unat (ucast (n :: u32) :: u64) = unat n"
proof -
  have "unat n < 2 ^ 64" using unat_u32_less [of n] by simp
  then show ?thesis by (simp add: unsigned_ucast_eq take_bit_nat_eq_self)
qed

lemma unat_span: "unat (4 * (ucast (n :: u32) :: u64) + 4) = 4 * unat n + 4"
  using unat_u32_less [of n] by (simp add: unat_word_ariths unat_ucast_u32_u64)

lemma mod_64_32: "(x::nat) mod 18446744073709551616 mod 4294967296 = x mod 4294967296"
proof -
  have "(4294967296::nat) dvd 18446744073709551616"
    by (rule dvdI [where k = 4294967296]) simp
  then show ?thesis by (rule mod_mod_cancel)
qed

lemma ucast_add_down: "(ucast (a + b :: u64) :: u32) = ucast a + ucast b"
  by (simp add: word_unat_eq_iff unsigned_ucast_eq unat_word_ariths take_bit_eq_mod
      mod_64_32 mod_simps)

lemma unat_ucast_down_small:
  "unat (x :: u64) < 4294967296 \<Longrightarrow> unat (ucast x :: u32) = unat x"
  by (simp add: unsigned_ucast_eq take_bit_eq_mod)

subsection \<open>One iteration\<close>

lemma body_type3:
  "hdr_type d (load32 (mem s) header) = 3 \<Longrightarrow>
   body d (header, processed, s) =
     (case type3 d header s of
        None \<Rightarrow> None
      | Some (Inl e) \<Rightarrow> Some (Inl e)
      | Some (Inr s') \<Rightarrow> Some (Inr (advance d header processed s')))"
  by (simp add: body_def)

lemma body_not_type3:
  "hdr_type d (load32 (mem s) header) \<noteq> 3 \<Longrightarrow>
   body d (header, processed, s) = Some (Inl Unreachable)"
  by (simp add: body_def)

lemma body_Inr:
  assumes "body d (header, processed, s) = Some (Inr (header', processed', s'))"
  shows "hdr_type d (load32 (mem s) header) = 3"
    and "type3 d header s = Some (Inr s')"
    and "header' = header + 4 * ucast (hdr_NumWords d (load32 (mem s') header)) + 4"
    and "processed' = processed + ucast (header' - header)"
    and "unat (header' - header) = 4 * unat (hdr_NumWords d (load32 (mem s') header)) + 4"
proof -
  show t: "hdr_type d (load32 (mem s) header) = 3"
    using assms by (simp add: body_def split: if_splits)
  from assms t show "type3 d header s = Some (Inr s')"
    by (simp add: body_type3 advance_def Let_def split: option.splits sum.splits)
  from assms t show h: "header' = header + 4 * ucast (hdr_NumWords d (load32 (mem s') header)) + 4"
    by (auto simp add: body_type3 advance_def Let_def split: option.splits sum.splits)
  from assms t show "processed' = processed + ucast (header' - header)"
    by (auto simp add: body_type3 advance_def Let_def split: option.splits sum.splits)
  from h show "unat (header' - header) = 4 * unat (hdr_NumWords d (load32 (mem s') header)) + 4"
    by (simp add: unat_span)
qed

subsection \<open>The loop and its run\<close>

lemma cmd_loop_continue:
  "fst (snd c) < size_in_bytes \<Longrightarrow>
   cmd_loop d size_in_bytes c =
     (case body d c of None \<Rightarrow> None | Some (Inl e) \<Rightarrow> Some (Inl e)
      | Some (Inr c') \<Rightarrow> cmd_loop d size_in_bytes c')"
  by (subst cmd_loop.simps) simp

lemma cmd_loop_exit:
  "\<not> fst (snd c) < size_in_bytes \<Longrightarrow> cmd_loop d size_in_bytes c = Some (Inr c)"
  by (subst cmd_loop.simps) simp

lemma cmd_loop_reach_aux:
  assumes "cmd_loop d size_in_bytes c = Some r"
  shows "reach d size_in_bytes c0 c \<longrightarrow>
     (\<forall>c'. r = Inr c' \<longrightarrow> reach d size_in_bytes c0 c' \<and> \<not> fst (snd c') < size_in_bytes)"
proof (rule cmd_loop.raw_induct
    [where P = "\<lambda>d sz c r. reach d sz c0 c \<longrightarrow>
       (\<forall>c'. r = Inr c' \<longrightarrow> reach d sz c0 c' \<and> \<not> fst (snd c') < sz)", OF _ assms])
  fix f d sz c y
  assume IH: "\<And>d sz c y. f d sz c = Some y \<Longrightarrow> reach d sz c0 c \<longrightarrow>
       (\<forall>c'. y = Inr c' \<longrightarrow> reach d sz c0 c' \<and> \<not> fst (snd c') < sz)"
    and eq: "(if fst (snd c) < sz
       then case body d c of None \<Rightarrow> None | Some (Inl e) \<Rightarrow> Some (Inl e)
            | Some (Inr c') \<Rightarrow> f d sz c'
       else Some (Inr c)) = Some y"
  show "reach d sz c0 c \<longrightarrow>
       (\<forall>c'. y = Inr c' \<longrightarrow> reach d sz c0 c' \<and> \<not> fst (snd c') < sz)"
  proof (cases "fst (snd c) < sz")
    case False
    with eq show ?thesis by auto
  next
    case True
    show ?thesis
    proof (intro impI allI)
      fix c'
      assume r: "reach d sz c0 c" and y: "y = Inr c'"
      from eq True y obtain c1 where b: "body d c = Some (Inr c1)"
        and l: "f d sz c1 = Some y"
        by (auto split: option.splits sum.splits)
      from r True b have "reach d sz c0 c1" by (rule reach_next)
      with IH [OF l] y
      show "reach d sz c0 c' \<and> \<not> fst (snd c') < sz" by simp
    qed
  qed
qed

lemma cmd_loop_reach:
  assumes "cmd_loop d size_in_bytes c0 = Some (Inr c')"
  shows "reach d size_in_bytes c0 c'" and "\<not> fst (snd c') < size_in_bytes"
  using cmd_loop_reach_aux [OF assms, of c0] by (simp_all add: reach_start)

text \<open>Along a run the low 32 bits of the cursor's displacement are the processed count.\<close>

lemma reach_processed:
  "reach d size_in_bytes (cmdbuf, 0, s) c \<Longrightarrow> fst (snd c) = ucast (fst c - cmdbuf)"
proof (induct rule: reach.induct)
  case reach_start
  show ?case by simp
next
  case (reach_next c c')
  obtain h p s1 where c: "c = (h, p, s1)" by (cases c) auto
  obtain h' p' s' where c': "c' = (h', p', s')" by (cases c') auto
  from reach_next(4) have "p' = p + ucast (h' - h)"
    unfolding c c' by (rule body_Inr(4))
  moreover from reach_next(2) have "p = ucast (h - cmdbuf)" by (simp add: c)
  moreover have "h' - cmdbuf = (h - cmdbuf) + (h' - h)" by simp
  ultimately show ?case
    unfolding c' by (simp only: fst_conv snd_conv ucast_add_down)
qed

text \<open>
  When the packets fit, nothing wraps: the displacement and the count agree as numbers, and
  the count never passes the length.
\<close>

lemma reach_fit:
  assumes "packets_fit d size_in_bytes (cmdbuf, 0, s)"
  shows "reach d size_in_bytes (cmdbuf, 0, s) c \<Longrightarrow>
         unat (fst c - cmdbuf) = unat (fst (snd c)) \<and>
         (fst (snd c) \<le> size_in_bytes \<or> c = (cmdbuf, 0, s))"
proof (induct rule: reach.induct)
  case reach_start
  show ?case by simp
next
  case (reach_next c c')
  obtain h p s1 where c: "c = (h, p, s1)" by (cases c) auto
  obtain h' p' s' where c': "c' = (h', p', s')" by (cases c') auto
  from reach_next(4) have p': "p' = p + ucast (h' - h)"
    unfolding c c' by (rule body_Inr(4))
  from assms reach_next(1,3,4) have fit: "unat p + unat (h' - h) \<le> unat size_in_bytes"
    unfolding packets_fit_def c c' by fastforce
  have sz: "unat size_in_bytes < 4294967296" by (rule unat_u32_less)
  from fit sz have small: "unat (h' - h) < 4294967296" by simp
  then have u: "unat (ucast (h' - h) :: u32) = unat (h' - h)"
    by (rule unat_ucast_down_small)
  from fit sz u have up': "unat p' = unat p + unat (h' - h)"
    unfolding p' by (simp add: unat_word_ariths)
  from reach_next(2) have hp: "unat (h - cmdbuf) = unat p" by (simp add: c)
  have "h' - cmdbuf = (h - cmdbuf) + (h' - h)" by simp
  then have "unat (h' - cmdbuf) = (unat (h - cmdbuf) + unat (h' - h)) mod 2 ^ 64"
    by (simp only: unat_word_ariths) simp
  with hp fit sz have "unat (h' - cmdbuf) = unat p'"
    by (simp add: up')
  moreover from up' fit have "p' \<le> size_in_bytes" by (simp add: word_le_nat_alt)
  ultimately show ?case by (simp add: c')
qed

lemma packets_fit_no_overflow:
  assumes "packets_fit d size_in_bytes c0"
  shows "no_overflow d size_in_bytes c0"
  unfolding no_overflow_def
proof (intro allI impI)
  fix c c'
  assume "reach d size_in_bytes c0 c" and "fst (snd c) < size_in_bytes"
    and "body d c = Some (Inr c')"
  with assms have "unat (fst (snd c)) + unat (fst c' - fst c) \<le> unat size_in_bytes"
    unfolding packets_fit_def by blast
  with unat_u32_less [of size_in_bytes]
  show "unat (fst (snd c)) + unat (fst c' - fst c) < 2 ^ 32" by simp
qed

text \<open>Without overflow an iteration adds the span of its packet to the count as a number.\<close>

lemma step_count:
  assumes nw: "no_overflow d size_in_bytes c0"
    and r: "reach d size_in_bytes c0 c" and lt: "fst (snd c) < size_in_bytes"
    and b: "body d c = Some (Inr c')"
  shows "unat (fst (snd c')) =
           unat (fst (snd c)) + 4 * (unat (hdr_NumWords d (load32 (mem (snd (snd c'))) (fst c))) + 1)"
proof -
  obtain h p s1 where c: "c = (h, p, s1)" by (cases c) auto
  obtain h' p' s' where c': "c' = (h', p', s')" by (cases c') auto
  from b have p': "p' = p + ucast (h' - h)"
    unfolding c c' by (rule body_Inr(4))
  from b have sp: "unat (h' - h) = 4 * unat (hdr_NumWords d (load32 (mem s') h)) + 4"
    unfolding c c' by (rule body_Inr(5))
  from nw r lt b have f: "unat p + unat (h' - h) < 2 ^ 32"
    unfolding no_overflow_def c c' by fastforce
  then have "unat (h' - h) < 4294967296" by simp
  then have u: "unat (ucast (h' - h) :: u32) = unat (h' - h)"
    by (rule unat_ucast_down_small)
  from f u have "unat p' = unat p + unat (h' - h)"
    unfolding p' by (simp add: unat_word_ariths)
  with sp show ?thesis by (simp add: c c')
qed

text \<open>Termination, by the distance of the count from the length.\<close>

lemma cmd_loop_returns:
  assumes nw: "no_overflow d size_in_bytes c0"
    and ht: "handlers_terminate d size_in_bytes c0"
  shows "reach d size_in_bytes c0 c \<Longrightarrow> cmd_loop d size_in_bytes c \<noteq> None"
proof (induct "unat size_in_bytes - unat (fst (snd c))" arbitrary: c rule: less_induct)
  case less
  show ?case
  proof (cases "fst (snd c) < size_in_bytes")
    case False
    then show ?thesis by (simp add: cmd_loop_exit)
  next
    case True
    from ht less.prems True have nn: "body d c \<noteq> None"
      unfolding handlers_terminate_def by blast
    show ?thesis
    proof (cases "body d c")
      case None
      with nn show ?thesis by simp
    next
      case (Some r)
      show ?thesis
      proof (cases r)
        case (Inl e)
        with Some True show ?thesis by (simp add: cmd_loop_continue)
      next
        case (Inr c')
        with Some have b: "body d c = Some (Inr c')" by simp
        from less.prems True b have r': "reach d size_in_bytes c0 c'" by (rule reach_next)
        from step_count [OF nw less.prems True b]
        have "unat (fst (snd c)) < unat (fst (snd c'))" by simp
        moreover from True have "unat (fst (snd c)) < unat size_in_bytes"
          by (simp add: word_less_nat_alt)
        ultimately have "unat size_in_bytes - unat (fst (snd c')) <
                         unat size_in_bytes - unat (fst (snd c))" by simp
        then have "cmd_loop d size_in_bytes c' \<noteq> None" using r' by (rule less.hyps)
        with b True show ?thesis by (simp add: cmd_loop_continue)
      qed
    qed
  qed
qed

subsection \<open>Copies into the register array and into memory\<close>

lemma splice_nth_in:
  "idx + length ws \<le> length ra \<Longrightarrow> i < length ws \<Longrightarrow>
   (take idx ra @ ws @ drop (idx + length ws) ra) ! (idx + i) = ws ! i"
  by (simp add: nth_append)

lemma splice_nth_out:
  "idx + length ws \<le> length ra \<Longrightarrow> j < length ra \<Longrightarrow> j < idx \<or> idx + length ws \<le> j \<Longrightarrow>
   (take idx ra @ ws @ drop (idx + length ws) ra) ! j = ra ! j"
  by (auto simp add: nth_append)

lemma splice_length:
  "idx + length ws \<le> length ra \<Longrightarrow>
   length (take idx ra @ ws @ drop (idx + length ws) ra) = length ra"
  by simp

lemma length_load_words: "length (load_words m a n) = n"
  by (simp add: load_words_def)

lemma nth_load_words: "i < n \<Longrightarrow> load_words m a n ! i = load32 m (a + 4 * of_nat i)"
  by (simp add: load_words_def)

lemma set_reg_in_range:
  assumes "unat (base + set_data_reg_offset d (mem s) header) +
           unat (hdr_NumWords d (load32 (mem s) header) - 1) \<le> length (reg_array (regs s))"
  shows "\<exists>s'. set_reg d base header s = Inr s' \<and>
           (\<forall>i < unat (hdr_NumWords d (load32 (mem s) header) - 1).
              reg_array (regs s') ! (unat (base + set_data_reg_offset d (mem s) header) + i) =
              load32 (mem s) (header + 8 + 4 * of_nat i)) \<and>
           (\<forall>j < length (reg_array (regs s)).
              j < unat (base + set_data_reg_offset d (mem s) header) \<or>
              unat (base + set_data_reg_offset d (mem s) header) +
                unat (hdr_NumWords d (load32 (mem s) header) - 1) \<le> j \<longrightarrow>
              reg_array (regs s') ! j = reg_array (regs s) ! j) \<and>
           length (reg_array (regs s')) = length (reg_array (regs s)) \<and>
           mem s' = mem s \<and> calls s' = calls s"
proof -
  let ?idx = "unat (base + set_data_reg_offset d (mem s) header)"
  let ?n = "unat (hdr_NumWords d (load32 (mem s) header) - 1)"
  let ?ws = "load_words (mem s) (header + 8) ?n"
  let ?ra = "reg_array (regs s)"
  have l: "length ?ws = ?n" by (rule length_load_words)
  from assms have le: "?idx + length ?ws \<le> length ?ra" by (simp add: l)
  have a: "\<forall>i < ?n. (take ?idx ?ra @ ?ws @ drop (?idx + ?n) ?ra) ! (?idx + i) =
             load32 (mem s) (header + 8 + 4 * of_nat i)"
    using splice_nth_in [OF le] by (simp add: l nth_load_words)
  have b: "\<forall>j < length ?ra. j < ?idx \<or> ?idx + ?n \<le> j \<longrightarrow>
             (take ?idx ?ra @ ?ws @ drop (?idx + ?n) ?ra) ! j = ?ra ! j"
    using splice_nth_out [OF le] by (simp add: l)
  have c: "length (take ?idx ?ra @ ?ws @ drop (?idx + ?n) ?ra) = length ?ra"
    using splice_length [OF le] by (simp add: l)
  from assms a b c show ?thesis
    by (simp add: set_reg_def Let_def)
qed

lemma memcpy_in: "i < n \<Longrightarrow> i < 2 ^ 64 \<Longrightarrow> memcpy m dst src n (dst + of_nat i) = m (src + of_nat i)"
  by (simp add: memcpy_def unat_of_nat)

lemma memcpy_out: "n \<le> unat (a - dst) \<Longrightarrow> memcpy m dst src n a = m a"
  by (simp add: memcpy_def)

subsection \<open>The polling loop\<close>

lemma wait_loop_done:
  "wait_reg_mem_Test d (mem s) header \<Longrightarrow> wait_loop d header s = Some s"
  by (subst wait_loop.simps) simp

lemma wait_loop_sleep:
  "\<not> wait_reg_mem_Test d (mem s) header \<Longrightarrow>
   wait_loop d header s = wait_loop d header (sleep d s)"
  by (subst wait_loop.simps) simp

lemma wait_loop_first:
  "wait_reg_mem_Test d (mem ((sleep d ^^ k) s)) header \<Longrightarrow>
   \<forall>j<k. \<not> wait_reg_mem_Test d (mem ((sleep d ^^ j) s)) header \<Longrightarrow>
   wait_loop d header s = Some ((sleep d ^^ k) s)"
proof (induction k arbitrary: s)
  case 0
  then show ?case by (simp add: wait_loop_done)
next
  case (Suc k)
  from Suc.prems(2) have n0: "\<not> wait_reg_mem_Test d (mem s) header" by force
  have t: "wait_reg_mem_Test d (mem ((sleep d ^^ k) (sleep d s))) header"
    using Suc.prems(1) by (simp add: funpow_swap1)
  have f: "\<forall>j<k. \<not> wait_reg_mem_Test d (mem ((sleep d ^^ j) (sleep d s))) header"
  proof (intro allI impI)
    fix j assume "j < k"
    then have "Suc j < Suc k" by simp
    with Suc.prems(2) have "\<not> wait_reg_mem_Test d (mem ((sleep d ^^ Suc j) s)) header" by blast
    then show "\<not> wait_reg_mem_Test d (mem ((sleep d ^^ j) (sleep d s))) header"
      by (simp add: funpow_swap1)
  qed
  from Suc.IH [OF t f] n0 show ?case
    by (simp add: wait_loop_sleep funpow_swap1)
qed

lemma wait_loop_Some:
  assumes "wait_loop d header s = Some s'"
  shows "wait_reg_mem_Test d (mem s') header \<and>
         (\<exists>k. s' = (sleep d ^^ k) s \<and>
              (\<forall>j<k. \<not> wait_reg_mem_Test d (mem ((sleep d ^^ j) s)) header))"
proof (rule wait_loop.raw_induct
    [where P = "\<lambda>d header s s'. wait_reg_mem_Test d (mem s') header \<and>
         (\<exists>k. s' = (sleep d ^^ k) s \<and>
              (\<forall>j<k. \<not> wait_reg_mem_Test d (mem ((sleep d ^^ j) s)) header))", OF _ assms])
  fix f d header s y
  assume IH: "\<And>d header s y. f d header s = Some y \<Longrightarrow>
       wait_reg_mem_Test d (mem y) header \<and>
         (\<exists>k. y = (sleep d ^^ k) s \<and>
              (\<forall>j<k. \<not> wait_reg_mem_Test d (mem ((sleep d ^^ j) s)) header))"
    and eq: "(if wait_reg_mem_Test d (mem s) header then Some s
              else f d header (sleep d s)) = Some y"
  show "wait_reg_mem_Test d (mem y) header \<and>
         (\<exists>k. y = (sleep d ^^ k) s \<and>
              (\<forall>j<k. \<not> wait_reg_mem_Test d (mem ((sleep d ^^ j) s)) header))"
  proof (cases "wait_reg_mem_Test d (mem s) header")
    case True
    with eq have "y = s" by simp
    with True show ?thesis by (auto intro: exI [of _ 0])
  next
    case False
    with eq have "f d header (sleep d s) = Some y" by simp
    from IH [OF this] obtain k where t: "wait_reg_mem_Test d (mem y) header"
      and k: "y = (sleep d ^^ k) (sleep d s)"
      and n: "\<forall>j<k. \<not> wait_reg_mem_Test d (mem ((sleep d ^^ j) (sleep d s))) header"
      by blast
    have "\<forall>j<Suc k. \<not> wait_reg_mem_Test d (mem ((sleep d ^^ j) s)) header"
    proof (intro allI impI)
      fix j assume j: "j < Suc k"
      show "\<not> wait_reg_mem_Test d (mem ((sleep d ^^ j) s)) header"
      proof (cases j)
        case 0
        with False show ?thesis by simp
      next
        case (Suc i)
        with j n have "\<not> wait_reg_mem_Test d (mem ((sleep d ^^ i) (sleep d s))) header" by simp
        with Suc show ?thesis by (simp add: funpow_swap1)
      qed
    qed
    moreover from k have "y = (sleep d ^^ Suc k) s" by (simp add: funpow_swap1)
    ultimately show ?thesis using t by blast
  qed
qed

lemma wait_loop_never:
  "\<forall>k. \<not> wait_reg_mem_Test d (mem ((sleep d ^^ k) s)) header \<Longrightarrow> wait_loop d header s = None"
proof (rule ccontr)
  assume a: "\<forall>k. \<not> wait_reg_mem_Test d (mem ((sleep d ^^ k) s)) header"
    and "wait_loop d header s \<noteq> None"
  then obtain s' where "wait_loop d header s = Some s'" by auto
  from wait_loop_Some [OF this] a show False by auto
qed

lemma sleeps_funpow: "sleeps ((sleep d ^^ k) s) = sleeps s + k"
  by (induction k) (simp_all add: sleep_def)

subsection \<open>Where a case leaves memory\<close>




subsection \<open>The processing thread after a stop request\<close>

text \<open>
  Once the stop is latched and the thread is not at the pop, no step pops: the stop stays
  latched, the thread never comes to the pop, and the queue only grows.
\<close>

lemma fire_latched:
  assumes "fire d e c = Some c'" and "stop_requested c" and "pc c \<noteq> AtPop"
  shows "stop_requested c' \<and> pc c' \<noteq> AtPop \<and> dequeued c' = dequeued c \<and>
         (\<exists>bs. gfx_ring c' = gfx_ring c @ bs)"
proof (cases e)
  case Processor
  with assms show ?thesis
    by (cases "pc c")
       (auto simp add: fire_def Process_step_def split: if_splits option.splits sum.splits prod.splits)
next
  case RequestStop
  with assms show ?thesis by (auto simp add: fire_def)
next
  case (Submit b)
  with assms show ?thesis by (auto simp add: fire_def split: if_splits)
qed

lemma run_latched:
  "run d es c = Some c' \<Longrightarrow> stop_requested c \<Longrightarrow> pc c \<noteq> AtPop \<Longrightarrow>
   stop_requested c' \<and> pc c' \<noteq> AtPop \<and> dequeued c' = dequeued c \<and>
   (\<exists>bs. gfx_ring c' = gfx_ring c @ bs)"
proof (induction es arbitrary: c)
  case Nil
  then show ?case by simp
next
  case (Cons e es)
  from Cons.prems(1) obtain c1 where f: "fire d e c = Some c1" and r: "run d es c1 = Some c'"
    by (auto split: option.splits)
  from fire_latched [OF f Cons.prems(2,3)]
  have s1: "stop_requested c1" and p1: "pc c1 \<noteq> AtPop" and d1: "dequeued c1 = dequeued c"
    and g1: "\<exists>bs. gfx_ring c1 = gfx_ring c @ bs" by simp_all
  from Cons.IH [OF r s1 p1] d1 g1 show ?case by auto
qed

text \<open>At the pop the lock is held: only the thread and the stop request can step.\<close>

lemma run_at_pop:
  "run d es c = Some c' \<Longrightarrow> stop_requested c \<Longrightarrow> pc c = AtPop \<Longrightarrow>
   dequeued c' = dequeued c \<or>
   (gfx_ring c \<noteq> [] \<and> dequeued c' = dequeued c @ [hd (gfx_ring c)])"
proof (induction es arbitrary: c)
  case Nil
  then show ?case by simp
next
  case (Cons e es)
  from Cons.prems(1) obtain c1 where f: "fire d e c = Some c1" and r: "run d es c1 = Some c'"
    by (auto split: option.splits)
  show ?case
  proof (cases e)
    case Processor
    show ?thesis
    proof (cases "gfx_ring c")
      case Nil
      with f Processor Cons.prems(2,3)
      have "stop_requested c1" "pc c1 \<noteq> AtPop" "dequeued c1 = dequeued c"
        by (auto simp add: fire_def Process_step_def)
      with run_latched [OF r] show ?thesis by simp
    next
      case (Cons b bs)
      with f Processor Cons.prems(2,3)
      have "stop_requested c1" "pc c1 \<noteq> AtPop" "dequeued c1 = dequeued c @ [b]"
        by (auto simp add: fire_def Process_step_def)
      with run_latched [OF r] Cons show ?thesis by simp
    qed
  next
    case RequestStop
    with f have c1: "c1 = c\<lparr>stop_requested := True\<rparr>" by (simp add: fire_def)
    from Cons.IH [OF r] c1 Cons.prems(3) show ?thesis by simp
  next
    case (Submit b)
    with f Cons.prems(3) show ?thesis by (simp add: fire_def)
  qed
qed

subsection \<open>The instance\<close>

text \<open>
  With a count field of 14 bits a packet has between 2 and 16385 words, so the processed
  count cannot overflow in a buffer of at most \<open>2^32 - 65540\<close> bytes.
\<close>

lemma pm4_NumWords_bounds:
  "1 \<le> unat (hdr_NumWords pm4 w) \<and> unat (hdr_NumWords pm4 w) \<le> 16384"
proof -
  let ?c = "take_bit 14 (drop_bit 16 w) :: u32"
  have "unat ?c = take_bit 14 (unat (drop_bit 16 w))" by (simp add: unsigned_take_bit_eq)
  also have "\<dots> < 2 ^ 14" by (rule take_bit_nat_less_exp)
  finally have c: "unat ?c < 16384" by simp
  then have "unat (?c + 1) = unat ?c + 1" by (simp add: unat_word_ariths)
  with c show ?thesis by (simp add: pm4_def)
qed

lemma pm4_no_overflow:
  assumes "unat size_in_bytes \<le> 4294901756"
  shows "no_overflow pm4 size_in_bytes c0"
  unfolding no_overflow_def
proof (intro allI impI)
  fix c c'
  assume lt: "fst (snd c) < size_in_bytes" and b: "body pm4 c = Some (Inr c')"
  obtain h p s1 where c: "c = (h, p, s1)" by (cases c) auto
  obtain h' p' s' where c': "c' = (h', p', s')" by (cases c') auto
  from b have "unat (h' - h) = 4 * unat (hdr_NumWords pm4 (load32 (mem s') h)) + 4"
    unfolding c c' by (rule body_Inr(5))
  with pm4_NumWords_bounds [of "load32 (mem s') h"] have "unat (h' - h) \<le> 65540" by simp
  moreover from lt have "unat p < unat size_in_bytes" by (simp add: c word_less_nat_alt)
  ultimately show "unat (fst (snd c)) + unat (fst c' - fst c) < 2 ^ 32"
    using assms by (simp add: c c')
qed

subsection \<open>The example buffers, evaluated\<close>

lemma over_loads: "load32 over_buf 0 = 0xC0031000" "load32 over_buf 4 = 0"
  by (simp_all add: over_buf_def load32_def words_at_def)

lemma ok_loads:
  "load32 ok_buf 0 = 0xC0001000" "load32 ok_buf 4 = 0" "load32 ok_buf 8 = 0xC0011000"
  "load32 ok_buf 12 = 0x68750777" "load32 ok_buf 16 = 0"
  by (simp_all add: ok_buf_def load32_def words_at_def)

lemma body_over:
  "body pm4 (0, 0, fresh False over_buf) = Some (Inr (20, 20, fresh False over_buf))"
  by (simp add: body_def type3_def advance_def Let_def pm4_def opcode_of_def fresh_def over_loads)

lemma body_ok0:
  "body pm4 (0, 0, fresh False ok_buf) = Some (Inr (8, 8, fresh False ok_buf))"
  by (simp add: body_def type3_def advance_def Let_def pm4_def opcode_of_def fresh_def ok_loads)

lemma body_ok1:
  "body pm4 (8, 8, fresh False ok_buf) = Some (Inr (20, 20, ok_final))"
  by (simp add: body_def type3_def advance_def Let_def pm4_def opcode_of_def fresh_def ok_loads
      ok_final_def)

lemma reach_ok:
  "reach pm4 20 (0, 0, fresh False ok_buf) c \<Longrightarrow>
   c = (0, 0, fresh False ok_buf) \<or> c = (8, 8, fresh False ok_buf) \<or> c = (20, 20, ok_final)"
proof (induct rule: reach.induct)
  case reach_start
  show ?case by simp
next
  case (reach_next c c')
  from reach_next(2,3,4) show ?case
    by (auto simp add: body_ok0 body_ok1)
qed

lemma packets_fit_ok: "packets_fit pm4 20 (0, 0, fresh False ok_buf)"
  unfolding packets_fit_def
proof (intro allI impI)
  fix c c'
  assume "reach pm4 20 (0, 0, fresh False ok_buf) c" and "fst (snd c) < 20"
    and "body pm4 c = Some (Inr c')"
  with reach_ok [of c] show "unat (fst (snd c)) + unat (fst c' - fst c) \<le> unat (20 :: u32)"
    by (auto simp add: body_ok0 body_ok1)
qed

lemma handlers_terminate_ok: "handlers_terminate pm4 20 (0, 0, fresh False ok_buf)"
  unfolding handlers_terminate_def
proof (intro allI impI)
  fix c
  assume "reach pm4 20 (0, 0, fresh False ok_buf) c" and "fst (snd c) < 20"
  with reach_ok [of c] show "body pm4 c \<noteq> None"
    by (auto simp add: body_ok0 body_ok1)
qed

lemma run_ok: "ProcessCmdList pm4 0 20 (fresh False ok_buf) = Some (Inr (20, 20, ok_final))"
  by (simp add: ProcessCmdList_def cmd_loop_continue cmd_loop_exit body_ok0 body_ok1)

lemma draw_loads:
  "load32 draw_buf 0 = 0xC0042700" "load32 draw_buf 4 = 100" "load32 draw_buf 8 = 0x1000"
  "load32 draw_buf 12 = 2" "load32 draw_buf 16 = 36" "load32 draw_buf 20 = 0"
  by (simp_all add: draw_buf_def load32_def words_at_def)

lemma setctx_loads:
  "load32 setctx_buf 0 = 0xC0026900" "load32 setctx_buf 4 = 0x10"
  "load32 setctx_buf 8 = 0xAA" "load32 setctx_buf 12 = 0xBB"
  by (simp_all add: setctx_buf_def load32_def words_at_def)


lemma type0_loads: "load32 type0_buf 0 = 0x00001234"
  by (simp_all add: type0_buf_def load32_def words_at_def)

lemma unknown_loads: "load32 unknown_buf 0 = 0xC000FF00"
  by (simp_all add: unknown_buf_def load32_def words_at_def)

lemma write_loads:
  "load32 write_buf 0 = 0xC0043700" "load32 write_buf 4 = 0x500" "load32 write_buf 8 = 0x100"
  "load32 write_buf 12 = 0" "write_buf 16 = 0x44" "write_buf 23 = 0x55"
  by (simp_all add: write_buf_def load32_def words_at_def)

lemma write_sel_loads:
  "load32 write_sel_buf 0 = 0xC0043700" "load32 write_sel_buf 4 = 0x100"
  by (simp_all add: write_sel_buf_def load32_def words_at_def)

lemma write_one_loads:
  "load32 write_one_buf 0 = 0xC0043700" "load32 write_one_buf 4 = 0x10500"
  by (simp_all add: write_one_buf_def load32_def words_at_def)

lemma wait_loads:
  "load32 wait_buf 0 = 0xC0053C00" "load32 wait_buf 4 = 3" "load32 wait_buf 8 = 28"
  "load32 wait_buf 12 = 0" "load32 wait_buf 16 = 1" "load32 wait_buf 20 = 0xFFFFFFFF"
  "load32 wait_buf 28 = 0"
  by (simp_all add: wait_buf_def load32_def words_at_def)

lemma wait_set_loads:
  "load32 wait_set_buf 0 = 0xC0053C00" "load32 wait_set_buf 4 = 3" "load32 wait_set_buf 8 = 28"
  "load32 wait_set_buf 12 = 0" "load32 wait_set_buf 16 = 1" "load32 wait_set_buf 20 = 0xFFFFFFFF"
  "load32 wait_set_buf 28 = 1"
  by (simp_all add: wait_set_buf_def load32_def words_at_def)

lemma wait_engine_loads:
  "load32 wait_engine_buf 0 = 0xC0053C00" "load32 wait_engine_buf 4 = 0x103"
  by (simp_all add: wait_engine_buf_def load32_def words_at_def)

lemma wait_tests: "\<not> wait_test wait_buf 0" "wait_test wait_set_buf 0"
  by (simp_all add: wait_test_def Let_def addr64_def wait_loads wait_set_loads)

lemma pm4_env_simps:
  "hdr_type pm4_env = hdr_type pm4" "hdr_opcode pm4_env = hdr_opcode pm4"
  "hdr_NumWords pm4_env = hdr_NumWords pm4"
  "wait_reg_mem_engine pm4_env = wait_reg_mem_engine pm4" "Engine_Me pm4_env = Engine_Me pm4"
  "wait_reg_mem_Test pm4_env = wait_test"
  "sleep_for pm4_env = (\<lambda>k m. if k = 1 then wait_set_buf else m)"
  by (simp_all add: pm4_env_def pm4_def)

lemma funpow_env:
  "(sleep pm4_env ^^ 0) (fresh False wait_buf) = fresh False wait_buf"
  "(sleep pm4_env ^^ 1) (fresh False wait_buf) = (fresh False wait_buf)\<lparr>sleeps := 1\<rparr>"
  "(sleep pm4_env ^^ 2) (fresh False wait_buf) =
     (fresh False wait_buf)\<lparr>mem := wait_set_buf, sleeps := 2\<rparr>"
  by (simp_all add: numeral_2_eq_2 sleep_def pm4_env_simps fresh_def)

lemma mem_sleep_pm4: "mem ((sleep pm4 ^^ k) s) = mem s"
  by (induction k) (simp_all add: sleep_def pm4_def)




lemma run_race_prefix:
  "run pm4 [Processor, Processor, Processor, RequestStop] race_start = Some race_popping"
  by (simp add: fire_def Process_step_def race_start_def race_popping_def)

lemma run_race_pop:
  "run pm4 [Processor] race_popping =
     Some (race_popping\<lparr>pc := AtDecode, gfx_ring := [], dcb := (0, 5), dequeued := [(0, 5)]\<rparr>)"
  by (simp add: fire_def Process_step_def race_start_def race_popping_def)

lemma run_race_rest:
  "run pm4 [Processor, Processor, Processor]
     (race_popping\<lparr>pc := AtDecode, gfx_ring := [], dcb := (0, 5), dequeued := [(0, 5)]\<rparr>) =
   Some (race_popping\<lparr>pc := Returned, gfx_ring := [], dcb := (0, 5), gpu := ok_final,
                       dequeued := [(0, 5)], completes := 1\<rparr>)"
  by (simp add: fire_def Process_step_def race_start_def race_popping_def run_ok)

lemma run_idle:
  "run pm4 [Submit (0, 5), Processor, Processor] idle_stopped =
     Some (idle_stopped\<lparr>pc := Returned, gfx_ring := [(0, 5)]\<rparr>)"
  by (simp add: fire_def Process_step_def race_start_def idle_stopped_def)

section \<open>The claims\<close>

subsection \<open>C1: how far the loop consumes\<close>

text \<open>
  Claim C1, as the code has it. Whenever \<^verbatim>\<open>ProcessCmdList\<close> returns, the loop has
  gone from packet to packet (the final cursor is reached from the start by iterations of
  the body), the processed count has reached or passed \<open>size_in_bytes\<close>, and it is the
  displacement of the cursor from \<open>cmdbuf\<close> (modulo \<open>2^32\<close>). When every decoded
  packet ends within the buffer, the count equals the length exactly and the cursor stands
  at the end of the buffer. No length mismatch is checked: see the buffer below.
\<close>

theorem ProcessCmdList_consumed:
  assumes "ProcessCmdList d cmdbuf size_in_bytes s = Some (Inr (header', processed', s'))"
  shows "reach d size_in_bytes (cmdbuf, 0, s) (header', processed', s') \<and>
         size_in_bytes \<le> processed' \<and> processed' = ucast (header' - cmdbuf) \<and>
         (packets_fit d size_in_bytes (cmdbuf, 0, s) \<longrightarrow>
            processed' = size_in_bytes \<and> header' = cmdbuf + ucast size_in_bytes)"
proof -
  let ?c0 = "(cmdbuf, 0 :: u32, s)" and ?c' = "(header', processed', s')"
  from assms have l: "cmd_loop d size_in_bytes ?c0 = Some (Inr ?c')"
    by (simp add: ProcessCmdList_def)
  have r: "reach d size_in_bytes ?c0 ?c'" using l by (rule cmd_loop_reach(1))
  have ge: "size_in_bytes \<le> processed'" using cmd_loop_reach(2) [OF l] by simp
  have pr: "processed' = ucast (header' - cmdbuf)" using reach_processed [OF r] by simp
  have "processed' = size_in_bytes \<and> header' = cmdbuf + ucast size_in_bytes"
    if fit: "packets_fit d size_in_bytes ?c0"
  proof -
    from reach_fit [OF fit r]
    have u: "unat (header' - cmdbuf) = unat processed'"
      and le: "processed' \<le> size_in_bytes \<or> ?c' = ?c0" by simp_all
    from le ge have eq: "processed' = size_in_bytes" by auto
    from u have "unat (header' - cmdbuf) = unat (ucast processed' :: u64)"
      by (simp add: unat_ucast_u32_u64)
    then have "header' - cmdbuf = ucast processed'" by (simp add: word_unat_eq_iff)
    then have "header' = cmdbuf + ucast processed'" by (simp add: algebra_simps)
    with eq show ?thesis by simp
  qed
  with r ge pr show ?thesis by blast
qed

text \<open>The run over \<open>ok_buf\<close>: two packets, 8 and 12 bytes, in a buffer of 20 bytes.\<close>

theorem ProcessCmdList_consumed_witness:
  "ProcessCmdList pm4 0 20 (fresh False ok_buf) = Some (Inr (20, 20, ok_final)) \<and>
   packets_fit pm4 20 (0, 0, fresh False ok_buf) \<and>
   reach pm4 20 (0, 0, fresh False ok_buf) (20, 20, ok_final) \<and>
   (20 :: u32) \<le> 20 \<and> (20 :: u32) = ucast (20 - 0 :: u64) \<and> (20 :: u64) = 0 + ucast (20 :: u32)"
  using ProcessCmdList_consumed [OF run_ok] run_ok packets_fit_ok by simp

text \<open>
  A buffer of 8 bytes whose only packet declares 20 bytes is accepted: the run is not fatal
  and ends with the processed count 20.
\<close>

theorem ProcessCmdList_overrun_accepted:
  "ProcessCmdList pm4 0 8 (fresh False over_buf) = Some (Inr (20, 20, fresh False over_buf))"
  by (simp add: ProcessCmdList_def cmd_loop_continue cmd_loop_exit body_over)

subsection \<open>C2: the draw-index-2 packet\<close>

text \<open>
  Claim C2, as the code has it. A \<^verbatim>\<open>DrawIndex2\<close> packet sets
  \<^verbatim>\<open>max_index_size\<close>, \<^verbatim>\<open>base_addr_lo\<close>, \<^verbatim>\<open>num_indices\<close> and
  \<^verbatim>\<open>draw_initiator\<close> to the packet's values; \<^verbatim>\<open>base_addr_hi\<close> is assigned
  through its bit field and holds the packet's value whenever that fits the field; memory
  is left as it was. \<^verbatim>\<open>rasterizer->DrawIndex()\<close> is then called once when a
  rasterizer is bound, and not at all when the pointer is null; no other call is made.
\<close>

theorem DrawIndex2_effect:
  assumes "hdr_type d (load32 (mem s) header) = 3"
    and "hdr_opcode d (load32 (mem s) header) = DrawIndex2"
  shows "\<exists>s'. body d (header, processed, s) = Some (Inr (advance d header processed s')) \<and>
           max_index_size (regs s') = draw_index2_max_size d (mem s) header \<and>
           base_addr_lo (regs s') = draw_index2_index_base_lo d (mem s) header \<and>
           base_addr_hi (regs s') =
             take_bit (base_addr_hi_bits d) (draw_index2_index_base_hi d (mem s) header) \<and>
           (unat (draw_index2_index_base_hi d (mem s) header) < 2 ^ base_addr_hi_bits d \<longrightarrow>
              base_addr_hi (regs s') = draw_index2_index_base_hi d (mem s) header) \<and>
           num_indices (regs s') = draw_index2_index_count d (mem s) header \<and>
           draw_initiator (regs s') = draw_index2_draw_initiator d (mem s) header \<and>
           mem s' = mem s \<and> rasterizer s' = rasterizer s \<and> sleeps s' = sleeps s \<and>
           calls s' = calls s @ (if rasterizer s then [Rasterizer_DrawIndex] else [])"
proof -
  have tb: "take_bit n w = w" if "unat w < 2 ^ n" for w :: u32 and n
    using that by (simp add: word_unat_eq_iff unsigned_take_bit_eq take_bit_nat_eq_self)
  show ?thesis
    using assms by (cases "rasterizer s") (auto simp add: body_type3 type3_def Let_def tb)
qed

text \<open>With a rasterizer bound: the five fields, and one call.\<close>

theorem DrawIndex2_effect_witness:
  "hdr_type pm4 (load32 (mem (fresh True draw_buf)) 0) = 3 \<and>
   hdr_opcode pm4 (load32 (mem (fresh True draw_buf)) 0) = DrawIndex2 \<and>
   (\<exists>s'. body pm4 (0, 0, fresh True draw_buf) = Some (Inr (24, 24, s')) \<and>
      max_index_size (regs s') = 100 \<and> base_addr_lo (regs s') = 0x1000 \<and>
      base_addr_hi (regs s') = 2 \<and> num_indices (regs s') = 36 \<and>
      draw_initiator (regs s') = 0 \<and> calls s' = [Rasterizer_DrawIndex])"
proof -
  let ?s = "fresh True draw_buf"
  have m: "mem ?s = draw_buf" by (simp add: fresh_def)
  have t: "hdr_type pm4 (load32 (mem ?s) 0) = 3"
    by (simp add: m draw_loads pm4_def)
  have o: "hdr_opcode pm4 (load32 (mem ?s) 0) = DrawIndex2"
    by (simp add: m draw_loads pm4_def opcode_of_def)
  have a: "advance pm4 0 0 s' = (24, 24, s')" if "mem s' = draw_buf" for s'
    using that by (simp add: advance_def Let_def draw_loads pm4_def)
  from DrawIndex2_effect [OF t o, of 0]
  obtain s' where b: "body pm4 (0, 0, ?s) = Some (Inr (advance pm4 0 0 s'))"
    and f: "max_index_size (regs s') = draw_index2_max_size pm4 (mem ?s) 0"
      "base_addr_lo (regs s') = draw_index2_index_base_lo pm4 (mem ?s) 0"
      "base_addr_hi (regs s') =
         take_bit (base_addr_hi_bits pm4) (draw_index2_index_base_hi pm4 (mem ?s) 0)"
      "num_indices (regs s') = draw_index2_index_count pm4 (mem ?s) 0"
      "draw_initiator (regs s') = draw_index2_draw_initiator pm4 (mem ?s) 0"
      "calls s' = calls ?s @ (if rasterizer ?s then [Rasterizer_DrawIndex] else [])"
    and m': "mem s' = mem ?s"
    by blast
  from f have "max_index_size (regs s') = 100" "base_addr_lo (regs s') = 0x1000"
    "base_addr_hi (regs s') = 2" "num_indices (regs s') = 36"
    "draw_initiator (regs s') = 0" "calls s' = [Rasterizer_DrawIndex]"
    by (simp_all add: m draw_loads pm4_def) (simp_all add: fresh_def)
  with b a [of s'] m' m t o show ?thesis by auto
qed

text \<open>Without a rasterizer the same packet is decoded and no call is made.\<close>

theorem DrawIndex2_no_rasterizer:
  "map_option (map_sum id (calls \<circ> snd \<circ> snd)) (body pm4 (0, 0, fresh False draw_buf)) =
   Some (Inr [])"
  by (simp add: body_def type3_def advance_def Let_def pm4_def opcode_of_def fresh_def draw_loads)

subsection \<open>C3: the set-context-register packet\<close>

text \<open>
  Claim C3. For a \<^verbatim>\<open>SetContextReg\<close> packet with offset \<open>o\<close>, the \<open>n\<close> words
  that follow the offset word (\<open>n\<close> is \<^verbatim>\<open>NumWords() - 1\<close>) are copied to
  \<^verbatim>\<open>reg_array[ContextRegWordOffset + o]\<close> onwards, word \<open>i\<close> to index
  \<open>ContextRegWordOffset + o + i\<close>, and every other register keeps its value. That is
  what decoding does whenever the target lies within the array; a target beyond the array
  is the unchecked \<^verbatim>\<open>memcpy\<close>.
\<close>

theorem SetContextReg_writes:
  fixes d s header processed
  defines "idx \<equiv> unat (ContextRegWordOffset d + set_data_reg_offset d (mem s) header)"
    and "n \<equiv> unat (hdr_NumWords d (load32 (mem s) header) - 1)"
  assumes t: "hdr_type d (load32 (mem s) header) = 3"
    and o: "hdr_opcode d (load32 (mem s) header) = SetContextReg"
  shows "(idx + n \<le> length (reg_array (regs s)) \<longrightarrow>
          (\<exists>s'. body d (header, processed, s) = Some (Inr (advance d header processed s')) \<and>
             (\<forall>i < n. reg_array (regs s') ! (idx + i) =
                       load32 (mem s) (header + 8 + 4 * of_nat i)) \<and>
             (\<forall>j < length (reg_array (regs s)). j < idx \<or> idx + n \<le> j \<longrightarrow>
                reg_array (regs s') ! j = reg_array (regs s) ! j) \<and>
             length (reg_array (regs s')) = length (reg_array (regs s)) \<and>
             mem s' = mem s \<and> calls s' = calls s)) \<and>
         (\<not> idx + n \<le> length (reg_array (regs s)) \<longrightarrow>
          body d (header, processed, s) = Some (Inl OutOfRange))"
proof (intro conjI impI)
  assume "idx + n \<le> length (reg_array (regs s))"
  then have "unat (ContextRegWordOffset d + set_data_reg_offset d (mem s) header) +
      unat (hdr_NumWords d (load32 (mem s) header) - 1) \<le> length (reg_array (regs s))"
    by (simp add: idx_def n_def)
  from set_reg_in_range [OF this] obtain s' where
    sr: "set_reg d (ContextRegWordOffset d) header s = Inr s'"
    and rest: "(\<forall>i < n. reg_array (regs s') ! (idx + i) =
                       load32 (mem s) (header + 8 + 4 * of_nat i)) \<and>
             (\<forall>j < length (reg_array (regs s)). j < idx \<or> idx + n \<le> j \<longrightarrow>
                reg_array (regs s') ! j = reg_array (regs s) ! j) \<and>
             length (reg_array (regs s')) = length (reg_array (regs s)) \<and>
             mem s' = mem s \<and> calls s' = calls s"
    unfolding idx_def n_def by blast
  from t o sr
  have "body d (header, processed, s) = Some (Inr (advance d header processed s'))"
    by (simp add: body_type3 type3_def Let_def)
  with rest
  show "\<exists>s'. body d (header, processed, s) = Some (Inr (advance d header processed s')) \<and>
             (\<forall>i < n. reg_array (regs s') ! (idx + i) =
                       load32 (mem s) (header + 8 + 4 * of_nat i)) \<and>
             (\<forall>j < length (reg_array (regs s)). j < idx \<or> idx + n \<le> j \<longrightarrow>
                reg_array (regs s') ! j = reg_array (regs s) ! j) \<and>
             length (reg_array (regs s')) = length (reg_array (regs s)) \<and>
             mem s' = mem s \<and> calls s' = calls s"
    by blast
next
  assume "\<not> idx + n \<le> length (reg_array (regs s))"
  with t o show "body d (header, processed, s) = Some (Inl OutOfRange)"
    by (simp add: body_type3 type3_def Let_def set_reg_def idx_def n_def)
qed

text \<open>
  Offset 0x10 and the words 0xAA, 0xBB: registers 0xA010 and 0xA011 of an array of 0xD000
  words.
\<close>

theorem SetContextReg_writes_witness:
  "hdr_type pm4 (load32 (mem (fresh False setctx_buf)) 0) = 3 \<and>
   hdr_opcode pm4 (load32 (mem (fresh False setctx_buf)) 0) = SetContextReg \<and>
   (\<exists>s'. body pm4 (0, 0, fresh False setctx_buf) = Some (Inr (16, 16, s')) \<and>
         reg_array (regs s') ! 0xA010 = 0xAA \<and> reg_array (regs s') ! 0xA011 = 0xBB)"
proof -
  let ?s = "fresh False setctx_buf"
  have m: "mem ?s = setctx_buf" by (simp add: fresh_def)
  have t: "hdr_type pm4 (load32 (mem ?s) 0) = 3"
    by (simp add: m setctx_loads pm4_def)
  have o: "hdr_opcode pm4 (load32 (mem ?s) 0) = SetContextReg"
    by (simp add: m setctx_loads pm4_def opcode_of_def)
  have n: "unat (hdr_NumWords pm4 (load32 setctx_buf 0) - 1) = 2"
    by (simp add: setctx_loads pm4_def)
  have i: "unat (ContextRegWordOffset pm4 + set_data_reg_offset pm4 setctx_buf 0) = 0xA010"
    by (simp add: setctx_loads pm4_def)
  have l: "length (reg_array (regs ?s)) = 0xD000" by (simp add: fresh_def)
  have a: "advance pm4 0 0 s' = (16, 16, s')" if "mem s' = setctx_buf" for s'
    using that by (simp add: advance_def Let_def setctx_loads pm4_def)
  from SetContextReg_writes [OF t o, of 0]
  have "\<exists>s'. body pm4 (0, 0, ?s) = Some (Inr (advance pm4 0 0 s')) \<and>
    (\<forall>i<2. reg_array (regs s') ! (0xA010 + i) = load32 setctx_buf (8 + 4 * of_nat i)) \<and>
    mem s' = setctx_buf"
    by (simp add: m n i l) blast
  then obtain s' where b: "body pm4 (0, 0, ?s) = Some (Inr (advance pm4 0 0 s'))"
    and w: "\<forall>i<2. reg_array (regs s') ! (0xA010 + i) = load32 setctx_buf (8 + 4 * of_nat i)"
    and m': "mem s' = setctx_buf"
    by blast
  from w [THEN spec, of 0] w [THEN spec, of 1]
  have "reg_array (regs s') ! 0xA010 = 0xAA" and "reg_array (regs s') ! 0xA011 = 0xBB"
    by (simp_all add: setctx_loads)
  with b a [OF m'] t o show ?thesis by auto
qed

subsection \<open>C4: the bytes a packet consumes\<close>




subsection \<open>C5: the write-data packet\<close>

text \<open>
  Claim C5. Decoding a \<^verbatim>\<open>WriteData\<close> packet fails the assertion unless
  \<^verbatim>\<open>dst_sel\<close> is 2 or 5; with such a selector it is the unreachable branch when
  \<^verbatim>\<open>wr_one_addr\<close> is set; otherwise \<open>(count - 2) * 4\<close> bytes (computed on
  \<^verbatim>\<open>u32\<close>) are copied from the packet's data to the destination address; no
  other byte of memory changes and no call is made.
\<close>

theorem WriteData_effect:
  fixes d s header processed
  defines "dst_sel \<equiv> write_data_dst_sel d (mem s) header"
    and "data_size \<equiv> unat ((hdr_count d (load32 (mem s) header) - 2) * 4)"
    and "dst \<equiv> write_data_Address d (mem s) header"
    and "src \<equiv> write_data_data d header"
  assumes t: "hdr_type d (load32 (mem s) header) = 3"
    and o: "hdr_opcode d (load32 (mem s) header) = WriteData"
  shows "(\<not> (dst_sel = 2 \<or> dst_sel = 5) \<longrightarrow>
            body d (header, processed, s) = Some (Inl AssertionFailed)) \<and>
         ((dst_sel = 2 \<or> dst_sel = 5) \<and> write_data_wr_one_addr d (mem s) header \<noteq> 0 \<longrightarrow>
            body d (header, processed, s) = Some (Inl Unreachable)) \<and>
         ((dst_sel = 2 \<or> dst_sel = 5) \<and> write_data_wr_one_addr d (mem s) header = 0 \<longrightarrow>
            (\<exists>s'. body d (header, processed, s) = Some (Inr (advance d header processed s')) \<and>
               (\<forall>i < data_size. mem s' (dst + of_nat i) = mem s (src + of_nat i)) \<and>
               (\<forall>a. data_size \<le> unat (a - dst) \<longrightarrow> mem s' a = mem s a) \<and>
               calls s' = calls s \<and> sleeps s' = sleeps s))"
proof (intro conjI impI)
  assume "\<not> (dst_sel = 2 \<or> dst_sel = 5)"
  with t o show "body d (header, processed, s) = Some (Inl AssertionFailed)"
    by (simp add: body_type3 type3_def Let_def dst_sel_def)
next
  assume "(dst_sel = 2 \<or> dst_sel = 5) \<and> write_data_wr_one_addr d (mem s) header \<noteq> 0"
  with t o show "body d (header, processed, s) = Some (Inl Unreachable)"
    by (auto simp add: body_type3 type3_def Let_def dst_sel_def)
next
  let ?s' = "s\<lparr>mem := memcpy (mem s) dst src data_size\<rparr>"
  assume "(dst_sel = 2 \<or> dst_sel = 5) \<and> write_data_wr_one_addr d (mem s) header = 0"
  with t o
  have b: "body d (header, processed, s) = Some (Inr (advance d header processed ?s'))"
    by (auto simp add: body_type3 type3_def Let_def dst_sel_def data_size_def dst_def src_def)
  have n: "data_size < 2 ^ 64"
    using unat_u32_less [of "(hdr_count d (load32 (mem s) header) - 2) * 4"]
    by (simp add: data_size_def)
  have "\<forall>i < data_size. mem ?s' (dst + of_nat i) = mem s (src + of_nat i)"
    using n by (simp add: memcpy_in)
  moreover have "\<forall>a. data_size \<le> unat (a - dst) \<longrightarrow> mem ?s' a = mem s a"
    by (simp add: memcpy_out)
  ultimately
  show "\<exists>s'. body d (header, processed, s) = Some (Inr (advance d header processed s')) \<and>
               (\<forall>i < data_size. mem s' (dst + of_nat i) = mem s (src + of_nat i)) \<and>
               (\<forall>a. data_size \<le> unat (a - dst) \<longrightarrow> mem s' a = mem s a) \<and>
               calls s' = calls s \<and> sleeps s' = sleeps s"
    using b by (intro exI [of _ ?s']) simp
qed

text \<open>
  Selector 1 fails the assertion; selector 5 in single-address mode is unreachable; selector 5
  copies the 8 data bytes to 0x100..0x107 and leaves 0x108 alone.
\<close>

theorem WriteData_effect_witness:
  "hdr_type pm4 (load32 write_sel_buf 0) = 3 \<and> hdr_opcode pm4 (load32 write_sel_buf 0) = WriteData \<and>
   write_data_dst_sel pm4 write_sel_buf 0 = 1 \<and>
   body pm4 (0, 0, fresh False write_sel_buf) = Some (Inl AssertionFailed) \<and>
   hdr_type pm4 (load32 write_one_buf 0) = 3 \<and> hdr_opcode pm4 (load32 write_one_buf 0) = WriteData \<and>
   write_data_dst_sel pm4 write_one_buf 0 = 5 \<and> write_data_wr_one_addr pm4 write_one_buf 0 = 1 \<and>
   body pm4 (0, 0, fresh False write_one_buf) = Some (Inl Unreachable) \<and>
   hdr_type pm4 (load32 write_buf 0) = 3 \<and> hdr_opcode pm4 (load32 write_buf 0) = WriteData \<and>
   write_data_dst_sel pm4 write_buf 0 = 5 \<and> write_data_wr_one_addr pm4 write_buf 0 = 0 \<and>
   write_data_Address pm4 write_buf 0 = 0x100 \<and>
   (\<exists>s'. body pm4 (0, 0, fresh False write_buf) = Some (Inr (advance pm4 0 0 s')) \<and>
         mem s' 0x100 = 0x44 \<and> mem s' 0x107 = 0x55 \<and> mem s' 0x108 = 0)"
proof -
  have m: "mem (fresh False b) = b" for b by (simp add: fresh_def)
  have sel: "hdr_type pm4 (load32 write_sel_buf 0) = 3"
    "hdr_opcode pm4 (load32 write_sel_buf 0) = WriteData"
    "write_data_dst_sel pm4 write_sel_buf 0 = 1"
    by (simp_all add: write_sel_loads pm4_def opcode_of_def)
  have one: "hdr_type pm4 (load32 write_one_buf 0) = 3"
    "hdr_opcode pm4 (load32 write_one_buf 0) = WriteData"
    "write_data_dst_sel pm4 write_one_buf 0 = 5" "write_data_wr_one_addr pm4 write_one_buf 0 = 1"
    by (simp_all add: write_one_loads pm4_def opcode_of_def)
  have ok: "hdr_type pm4 (load32 write_buf 0) = 3"
    "hdr_opcode pm4 (load32 write_buf 0) = WriteData"
    "write_data_dst_sel pm4 write_buf 0 = 5" "write_data_wr_one_addr pm4 write_buf 0 = 0"
    "write_data_Address pm4 write_buf 0 = 0x100" "write_data_data pm4 0 = 16"
    "unat ((hdr_count pm4 (load32 write_buf 0) - 2) * 4) = 8"
    by (simp_all add: write_loads pm4_def opcode_of_def addr64_def)
  from WriteData_effect [of pm4 "fresh False write_sel_buf" 0 0] sel
  have b1: "body pm4 (0, 0, fresh False write_sel_buf) = Some (Inl AssertionFailed)"
    by (simp add: m)
  from WriteData_effect [of pm4 "fresh False write_one_buf" 0 0] one
  have b2: "body pm4 (0, 0, fresh False write_one_buf) = Some (Inl Unreachable)"
    by (simp add: m)
  from WriteData_effect [of pm4 "fresh False write_buf" 0 0] ok
  have "\<exists>s'. body pm4 (0, 0, fresh False write_buf) = Some (Inr (advance pm4 0 0 s')) \<and>
          (\<forall>i<8. mem s' (0x100 + of_nat i) = write_buf (16 + of_nat i)) \<and>
          (\<forall>a. 8 \<le> unat (a - 0x100) \<longrightarrow> mem s' a = write_buf a)"
    by (simp add: m) blast
  then obtain s' where b3: "body pm4 (0, 0, fresh False write_buf) = Some (Inr (advance pm4 0 0 s'))"
    and cp: "\<forall>i<8. mem s' (0x100 + of_nat i) = write_buf (16 + of_nat i)"
    and fr: "\<forall>a. 8 \<le> unat (a - 0x100) \<longrightarrow> mem s' a = write_buf a"
    by blast
  from cp [THEN spec, of 0] cp [THEN spec, of 7] fr [THEN spec, of "0x108"]
  have "mem s' 0x100 = 0x44" "mem s' 0x107 = 0x55" "mem s' 0x108 = 0"
    by (simp_all add: write_loads) (simp add: write_buf_def words_at_def)
  with b1 b2 b3 sel one ok show ?thesis by blast
qed

subsection \<open>C6: unknown packet types and opcodes\<close>

text \<open>
  Claim C6. A header whose type is not 3, and a type-3 header whose opcode the switch does
  not name, make the iteration fatal (\<^verbatim>\<open>UNREACHABLE_MSG\<close>), and with it the loop
  whenever it stands at such a packet: nothing is skipped or consumed.
\<close>

theorem unknown_packet_fatal:
  assumes "hdr_type d (load32 (mem s) header) \<noteq> 3 \<or>
           hdr_opcode d (load32 (mem s) header) = OtherOpcode x"
  shows "body d (header, processed, s) = Some (Inl Unreachable) \<and>
         (processed < size_in_bytes \<longrightarrow>
            cmd_loop d size_in_bytes (header, processed, s) = Some (Inl Unreachable))"
proof -
  have b: "body d (header, processed, s) = Some (Inl Unreachable)"
  proof (cases "hdr_type d (load32 (mem s) header) = 3")
    case True
    with assms show ?thesis by (simp add: body_type3 type3_def Let_def)
  next
    case False
    then show ?thesis by (rule body_not_type3)
  qed
  then show ?thesis by (simp add: cmd_loop_continue)
qed

text \<open>A header of type 0, and the opcode 0xFF.\<close>

theorem unknown_packet_fatal_witness:
  "hdr_type pm4 (load32 (mem (fresh False type0_buf)) 0) \<noteq> 3 \<and>
   body pm4 (0, 0, fresh False type0_buf) = Some (Inl Unreachable) \<and>
   cmd_loop pm4 8 (0, 0, fresh False type0_buf) = Some (Inl Unreachable) \<and>
   hdr_type pm4 (load32 (mem (fresh False unknown_buf)) 0) = 3 \<and>
   hdr_opcode pm4 (load32 (mem (fresh False unknown_buf)) 0) = OtherOpcode 0xFF \<and>
   body pm4 (0, 0, fresh False unknown_buf) = Some (Inl Unreachable) \<and>
   cmd_loop pm4 8 (0, 0, fresh False unknown_buf) = Some (Inl Unreachable)"
proof -
  have t0: "hdr_type pm4 (load32 (mem (fresh False type0_buf)) 0) \<noteq> 3"
    by (simp add: fresh_def type0_loads pm4_def)
  have t3: "hdr_type pm4 (load32 (mem (fresh False unknown_buf)) 0) = 3"
    by (simp add: fresh_def unknown_loads pm4_def)
  have op: "hdr_opcode pm4 (load32 (mem (fresh False unknown_buf)) 0) = OtherOpcode 0xFF"
    by (simp add: fresh_def unknown_loads pm4_def opcode_of_def)
  from unknown_packet_fatal [of pm4 "fresh False type0_buf" 0 _ 0 8] t0
  have "body pm4 (0, 0, fresh False type0_buf) = Some (Inl Unreachable) \<and>
        cmd_loop pm4 8 (0, 0, fresh False type0_buf) = Some (Inl Unreachable)" by simp
  moreover from unknown_packet_fatal [of pm4 "fresh False unknown_buf" 0 "0xFF" 0 8] op
  have "body pm4 (0, 0, fresh False unknown_buf) = Some (Inl Unreachable) \<and>
        cmd_loop pm4 8 (0, 0, fresh False unknown_buf) = Some (Inl Unreachable)" by simp
  ultimately show ?thesis using t0 t3 op by simp
qed

subsection \<open>C7: the wait-reg-mem packet\<close>

text \<open>
  Claim C7. Decoding a \<^verbatim>\<open>WaitRegMem\<close> packet fails the assertion unless the engine
  field is \<^verbatim>\<open>Engine::Me\<close>. Otherwise: when \<^verbatim>\<open>Test()\<close> holds at once the
  iteration returns the state as it was (no sleep); when \<^verbatim>\<open>Test()\<close> first holds after
  \<open>k\<close> sleeps the iteration returns just then, with \<open>k\<close> more sleeps counted; an
  iteration that returns leaves a state in which \<^verbatim>\<open>Test()\<close> holds; and when
  \<^verbatim>\<open>Test()\<close> never holds the iteration never returns.
\<close>

theorem WaitRegMem_polls:
  assumes "hdr_type d (load32 (mem s) header) = 3"
    and "hdr_opcode d (load32 (mem s) header) = WaitRegMem"
  shows "(wait_reg_mem_engine d (mem s) header \<noteq> Engine_Me d \<longrightarrow>
            body d (header, processed, s) = Some (Inl AssertionFailed)) \<and>
         (wait_reg_mem_engine d (mem s) header = Engine_Me d \<longrightarrow>
            (wait_reg_mem_Test d (mem s) header \<longrightarrow>
               body d (header, processed, s) = Some (Inr (advance d header processed s))) \<and>
            (\<forall>k. wait_reg_mem_Test d (mem ((sleep d ^^ k) s)) header \<and>
                 (\<forall>j<k. \<not> wait_reg_mem_Test d (mem ((sleep d ^^ j) s)) header) \<longrightarrow>
                 body d (header, processed, s) =
                   Some (Inr (advance d header processed ((sleep d ^^ k) s))) \<and>
                 sleeps ((sleep d ^^ k) s) = sleeps s + k) \<and>
            (\<forall>c'. body d (header, processed, s) = Some (Inr c') \<longrightarrow>
                 wait_reg_mem_Test d (mem (snd (snd c'))) header) \<and>
            ((\<forall>k. \<not> wait_reg_mem_Test d (mem ((sleep d ^^ k) s)) header) \<longrightarrow>
               body d (header, processed, s) = None))"
proof (intro conjI impI allI)
  assume "wait_reg_mem_engine d (mem s) header \<noteq> Engine_Me d"
  with assms show "body d (header, processed, s) = Some (Inl AssertionFailed)"
    by (simp add: body_type3 type3_def Let_def)
next
  assume me: "wait_reg_mem_engine d (mem s) header = Engine_Me d"
  have b: "body d (header, processed, s) =
           (case wait_loop d header s of None \<Rightarrow> None
            | Some s' \<Rightarrow> Some (Inr (advance d header processed s')))"
    using assms me by (simp add: body_type3 type3_def Let_def split: option.splits)
  {
    assume "wait_reg_mem_Test d (mem s) header"
    then show "body d (header, processed, s) = Some (Inr (advance d header processed s))"
      by (simp add: b wait_loop_done)
  next
    fix k
    assume "wait_reg_mem_Test d (mem ((sleep d ^^ k) s)) header \<and>
            (\<forall>j<k. \<not> wait_reg_mem_Test d (mem ((sleep d ^^ j) s)) header)"
    then have "wait_loop d header s = Some ((sleep d ^^ k) s)"
      by (simp add: wait_loop_first)
    then show "body d (header, processed, s) =
                 Some (Inr (advance d header processed ((sleep d ^^ k) s)))"
      by (simp add: b)
    show "sleeps ((sleep d ^^ k) s) = sleeps s + k" by (rule sleeps_funpow)
  next
    fix c'
    assume "body d (header, processed, s) = Some (Inr c')"
    then obtain s' where w: "wait_loop d header s = Some s'"
      and c': "c' = advance d header processed s'"
      by (auto simp add: b split: option.splits)
    from wait_loop_Some [OF w] c'
    show "wait_reg_mem_Test d (mem (snd (snd c'))) header"
      by (simp add: advance_def Let_def)
  next
    assume "\<forall>k. \<not> wait_reg_mem_Test d (mem ((sleep d ^^ k) s)) header"
    then have "wait_loop d header s = None" by (rule wait_loop_never)
    then show "body d (header, processed, s) = None" by (simp add: b)
  }
qed

text \<open>
  The engine field 1 fails the assertion; a polled word that is already 1 returns at once;
  a polled word that another thread sets during the second sleep returns after two sleeps;
  a polled word that nobody sets is polled forever.
\<close>

theorem WaitRegMem_polls_witness:
  "hdr_type pm4 (load32 wait_engine_buf 0) = 3 \<and>
   hdr_opcode pm4 (load32 wait_engine_buf 0) = WaitRegMem \<and>
   wait_reg_mem_engine pm4 wait_engine_buf 0 \<noteq> Engine_Me pm4 \<and>
   body pm4 (0, 0, fresh False wait_engine_buf) = Some (Inl AssertionFailed) \<and>
   hdr_type pm4 (load32 wait_set_buf 0) = 3 \<and>
   hdr_opcode pm4 (load32 wait_set_buf 0) = WaitRegMem \<and>
   wait_reg_mem_engine pm4 wait_set_buf 0 = Engine_Me pm4 \<and>
   wait_reg_mem_Test pm4 wait_set_buf 0 \<and>
   body pm4 (0, 0, fresh False wait_set_buf) = Some (Inr (28, 28, fresh False wait_set_buf)) \<and>
   hdr_type pm4_env (load32 wait_buf 0) = 3 \<and>
   hdr_opcode pm4_env (load32 wait_buf 0) = WaitRegMem \<and>
   wait_reg_mem_engine pm4_env wait_buf 0 = Engine_Me pm4_env \<and>
   \<not> wait_reg_mem_Test pm4_env (mem ((sleep pm4_env ^^ 0) (fresh False wait_buf))) 0 \<and>
   \<not> wait_reg_mem_Test pm4_env (mem ((sleep pm4_env ^^ 1) (fresh False wait_buf))) 0 \<and>
   wait_reg_mem_Test pm4_env (mem ((sleep pm4_env ^^ 2) (fresh False wait_buf))) 0 \<and>
   body pm4_env (0, 0, fresh False wait_buf) =
     Some (Inr (28, 28, (fresh False wait_buf)\<lparr>mem := wait_set_buf, sleeps := 2\<rparr>)) \<and>
   (\<forall>k. \<not> wait_reg_mem_Test pm4 (mem ((sleep pm4 ^^ k) (fresh False wait_buf))) 0) \<and>
   body pm4 (0, 0, fresh False wait_buf) = None"
proof -
  have m: "mem (fresh False b) = b" for b by (simp add: fresh_def)
  have eng: "hdr_type pm4 (load32 wait_engine_buf 0) = 3"
    "hdr_opcode pm4 (load32 wait_engine_buf 0) = WaitRegMem"
    "wait_reg_mem_engine pm4 wait_engine_buf 0 \<noteq> Engine_Me pm4"
    by (simp_all add: wait_engine_loads pm4_def opcode_of_def)
  have st: "hdr_type pm4 (load32 wait_set_buf 0) = 3"
    "hdr_opcode pm4 (load32 wait_set_buf 0) = WaitRegMem"
    "wait_reg_mem_engine pm4 wait_set_buf 0 = Engine_Me pm4"
    "wait_reg_mem_Test pm4 wait_set_buf 0"
    by (simp_all add: wait_set_loads pm4_def opcode_of_def wait_tests)
  have ev: "hdr_type pm4_env (load32 wait_buf 0) = 3"
    "hdr_opcode pm4_env (load32 wait_buf 0) = WaitRegMem"
    "wait_reg_mem_engine pm4_env wait_buf 0 = Engine_Me pm4_env"
    by (simp_all add: pm4_env_simps wait_loads pm4_def opcode_of_def)
  have ts: "\<not> wait_reg_mem_Test pm4_env (mem ((sleep pm4_env ^^ 0) (fresh False wait_buf))) 0"
    "\<not> wait_reg_mem_Test pm4_env (mem ((sleep pm4_env ^^ 1) (fresh False wait_buf))) 0"
    "wait_reg_mem_Test pm4_env (mem ((sleep pm4_env ^^ 2) (fresh False wait_buf))) 0"
    unfolding funpow_env by (simp_all add: pm4_env_simps m wait_tests)
  have all: "\<forall>j<2. \<not> wait_reg_mem_Test pm4_env (mem ((sleep pm4_env ^^ j) (fresh False wait_buf))) 0"
  proof (intro allI impI)
    fix j :: nat assume "j < 2"
    then have "j = 0 \<or> j = 1" by auto
    with ts(1,2) show "\<not> wait_reg_mem_Test pm4_env (mem ((sleep pm4_env ^^ j) (fresh False wait_buf))) 0"
      by auto
  qed
  have a1: "advance pm4 0 0 (fresh False wait_set_buf) = (28, 28, fresh False wait_set_buf)"
    by (simp add: advance_def Let_def m wait_set_loads pm4_def)
  have a2: "advance pm4_env 0 0 ((fresh False wait_buf)\<lparr>mem := wait_set_buf, sleeps := 2\<rparr>) =
      (28, 28, (fresh False wait_buf)\<lparr>mem := wait_set_buf, sleeps := 2\<rparr>)"
    by (simp add: advance_def Let_def wait_set_loads pm4_env_simps) (simp add: pm4_def wait_set_loads)
  from WaitRegMem_polls [of pm4 "fresh False wait_engine_buf" 0 0] eng
  have b1: "body pm4 (0, 0, fresh False wait_engine_buf) = Some (Inl AssertionFailed)"
    by (simp add: m)
  from WaitRegMem_polls [of pm4 "fresh False wait_set_buf" 0 0] st
  have b2: "body pm4 (0, 0, fresh False wait_set_buf) = Some (Inr (28, 28, fresh False wait_set_buf))"
    by (simp add: m a1)
  have ev': "hdr_type pm4_env (load32 (mem (fresh False wait_buf)) 0) = 3"
    "hdr_opcode pm4_env (load32 (mem (fresh False wait_buf)) 0) = WaitRegMem"
    "wait_reg_mem_engine pm4_env (mem (fresh False wait_buf)) 0 = Engine_Me pm4_env"
    using ev by (simp_all add: m)
  from WaitRegMem_polls [OF ev'(1,2), of 0, THEN conjunct2, THEN mp, OF ev'(3),
      THEN conjunct2, THEN conjunct1, THEN spec, of 2] ts(3) all
  have "body pm4_env (0, 0, fresh False wait_buf) =
          Some (Inr (advance pm4_env 0 0 ((sleep pm4_env ^^ 2) (fresh False wait_buf))))"
    by blast
  then have b3: "body pm4_env (0, 0, fresh False wait_buf) =
     Some (Inr (28, 28, (fresh False wait_buf)\<lparr>mem := wait_set_buf, sleeps := 2\<rparr>))"
    by (simp only: funpow_env a2)
  have nv: "hdr_type pm4 (load32 (mem (fresh False wait_buf)) 0) = 3"
    "hdr_opcode pm4 (load32 (mem (fresh False wait_buf)) 0) = WaitRegMem"
    "wait_reg_mem_engine pm4 (mem (fresh False wait_buf)) 0 = Engine_Me pm4"
    by (simp_all add: m wait_loads pm4_def opcode_of_def)
  have never: "\<forall>k. \<not> wait_reg_mem_Test pm4 (mem ((sleep pm4 ^^ k) (fresh False wait_buf))) 0"
    by (simp add: mem_sleep_pm4 m wait_tests) (simp add: pm4_def wait_tests)
  from WaitRegMem_polls [OF nv(1,2), of 0, THEN conjunct2, THEN mp, OF nv(3),
      THEN conjunct2, THEN conjunct2, THEN conjunct2, THEN mp, OF never]
  have b4: "body pm4 (0, 0, fresh False wait_buf) = None" .
  from b1 b2 b3 b4 eng st ev ts never show ?thesis by blast
qed

subsection \<open>C8: the stop request\<close>

text \<open>
  Claim C8, as the code has it. Once the stop is latched it stays latched. If the
  processing thread is then anywhere but between the check of line 29 and the pop of lines
  33-34, no buffer is popped in any schedule that follows, whatever is submitted: the queue
  only grows. A thread blocked in the wait is woken (its wait returns) and returns at the
  check of line 29; at the loop test it returns at once. If the stop is latched between that
  check and the pop, at most one more buffer is popped, the one at the front of the queue.
\<close>

theorem stop_latched:
  assumes "run d es c = Some c'" and "stop_requested c"
  shows "stop_requested c' \<and>
         (pc c \<noteq> AtPop \<longrightarrow>
            dequeued c' = dequeued c \<and> (\<exists>bs. gfx_ring c' = gfx_ring c @ bs)) \<and>
         (pc c = AtPop \<longrightarrow>
            dequeued c' = dequeued c \<or>
            (gfx_ring c \<noteq> [] \<and> dequeued c' = dequeued c @ [hd (gfx_ring c)])) \<and>
         (pc c = AtLoopTest \<longrightarrow> Process_step d c = Some (c\<lparr>pc := Returned\<rparr>)) \<and>
         (pc c = InWait \<longrightarrow> Process_step d c = Some (c\<lparr>pc := AtStopCheck\<rparr>)) \<and>
         (pc c = AtStopCheck \<longrightarrow> Process_step d c = Some (c\<lparr>pc := Returned\<rparr>))"
proof -
  have s: "stop_requested c'"
  proof (cases "pc c = AtPop")
    case False
    with run_latched [OF assms] show ?thesis by simp
  next
    case True
    show ?thesis using assms(1,2)
    proof (induction es arbitrary: c)
      case Nil
      then show ?case by simp
    next
      case (Cons e es)
      from Cons.prems(1) obtain c1 where f: "fire d e c = Some c1"
        and r: "run d es c1 = Some c'" by (auto split: option.splits)
      from f Cons.prems(2) have "stop_requested c1"
        by (cases e; cases "pc c")
           (auto simp add: fire_def Process_step_def
                 split: if_splits option.splits sum.splits prod.splits list.splits)
      with Cons.IH [OF r] show ?case .
    qed
  qed
  moreover have "dequeued c' = dequeued c \<and> (\<exists>bs. gfx_ring c' = gfx_ring c @ bs)"
    if "pc c \<noteq> AtPop" using run_latched [OF assms that] by simp
  moreover have "dequeued c' = dequeued c \<or>
            (gfx_ring c \<noteq> [] \<and> dequeued c' = dequeued c @ [hd (gfx_ring c)])"
    if "pc c = AtPop" using run_at_pop [OF assms that] .
  moreover have "Process_step d c = Some (c\<lparr>pc := Returned\<rparr>)" if "pc c = AtLoopTest"
    using that assms(2) by (simp add: Process_step_def)
  moreover have "Process_step d c = Some (c\<lparr>pc := AtStopCheck\<rparr>)" if "pc c = InWait"
    using that assms(2) by (simp add: Process_step_def)
  moreover have "Process_step d c = Some (c\<lparr>pc := Returned\<rparr>)" if "pc c = AtStopCheck"
    using that assms(2) by (simp add: Process_step_def)
  ultimately show ?thesis by blast
qed

text \<open>
  A thread blocked on an empty queue with the stop latched: a buffer submitted afterwards
  stays in the queue and the thread returns. A thread at the pop with the stop latched pops
  the front buffer.
\<close>

theorem stop_latched_witness:
  "stop_requested idle_stopped \<and> pc idle_stopped = InWait \<and>
   run pm4 [Submit (0, 5), Processor, Processor] idle_stopped =
     Some (idle_stopped\<lparr>pc := Returned, gfx_ring := [(0, 5)]\<rparr>) \<and>
   dequeued (idle_stopped\<lparr>pc := Returned, gfx_ring := [(0, 5)]\<rparr>) = dequeued idle_stopped \<and>
   Process_step pm4 idle_stopped = Some (idle_stopped\<lparr>pc := AtStopCheck\<rparr>) \<and>
   Process_step pm4 (idle_stopped\<lparr>pc := AtStopCheck\<rparr>) =
     Some (idle_stopped\<lparr>pc := Returned\<rparr>) \<and>
   Process_step pm4 (idle_stopped\<lparr>pc := AtLoopTest\<rparr>) =
     Some (idle_stopped\<lparr>pc := Returned\<rparr>) \<and>
   stop_requested race_popping \<and> pc race_popping = AtPop \<and>
   run pm4 [Processor] race_popping =
     Some (race_popping\<lparr>pc := AtDecode, gfx_ring := [], dcb := (0, 5), dequeued := [(0, 5)]\<rparr>) \<and>
   dequeued (race_popping\<lparr>pc := AtDecode, gfx_ring := [], dcb := (0, 5), dequeued := [(0, 5)]\<rparr>) =
     dequeued race_popping @ [hd (gfx_ring race_popping)]"
proof -
  have i: "stop_requested idle_stopped" "pc idle_stopped = InWait"
    by (simp_all add: idle_stopped_def)
  have p: "stop_requested race_popping" "pc race_popping = AtPop"
    "dequeued race_popping @ [hd (gfx_ring race_popping)] = [(0, 5)]"
    by (simp_all add: race_popping_def race_start_def)
  from stop_latched [OF run_idle i(1)] i(2)
  have "dequeued (idle_stopped\<lparr>pc := Returned, gfx_ring := [(0, 5)]\<rparr>) = dequeued idle_stopped"
    and "Process_step pm4 idle_stopped = Some (idle_stopped\<lparr>pc := AtStopCheck\<rparr>)"
    by simp_all
  moreover from stop_latched [OF run_race_pop p(1)] p(2)
  have "dequeued (race_popping\<lparr>pc := AtDecode, gfx_ring := [], dcb := (0, 5),
                              dequeued := [(0, 5)]\<rparr>) =
        dequeued race_popping @ [hd (gfx_ring race_popping)]"
    by (simp add: p(3))
  moreover from stop_latched [of pm4 "[]" "idle_stopped\<lparr>pc := AtStopCheck\<rparr>"] i(1)
  have "Process_step pm4 (idle_stopped\<lparr>pc := AtStopCheck\<rparr>) =
     Some (idle_stopped\<lparr>pc := Returned\<rparr>)" by simp
  moreover from stop_latched [of pm4 "[]" "idle_stopped\<lparr>pc := AtLoopTest\<rparr>"] i(1)
  have "Process_step pm4 (idle_stopped\<lparr>pc := AtLoopTest\<rparr>) =
     Some (idle_stopped\<lparr>pc := Returned\<rparr>)" by simp
  ultimately show ?thesis using i p(1,2) run_idle run_race_pop by simp
qed

text \<open>
  The stop is requested after the check of line 29 has passed: the thread pops the buffer
  with the stop latched, decodes it, notifies the drain and only then returns.
\<close>

theorem stop_after_check_dequeues:
  "run pm4 [Processor, Processor, Processor, RequestStop] race_start = Some race_popping \<and>
   stop_requested race_popping \<and> dequeued race_popping = [] \<and>
   run pm4 [Processor] race_popping =
     Some (race_popping\<lparr>pc := AtDecode, gfx_ring := [], dcb := (0, 5), dequeued := [(0, 5)]\<rparr>) \<and>
   run pm4 [Processor, Processor, Processor]
     (race_popping\<lparr>pc := AtDecode, gfx_ring := [], dcb := (0, 5), dequeued := [(0, 5)]\<rparr>) =
   Some (race_popping\<lparr>pc := Returned, gfx_ring := [], dcb := (0, 5), gpu := ok_final,
                       dequeued := [(0, 5)], completes := 1\<rparr>)"
proof (intro conjI)
  show "run pm4 [Processor, Processor, Processor, RequestStop] race_start = Some race_popping"
    by (rule run_race_prefix)
  show "stop_requested race_popping" and "dequeued race_popping = []"
    by (simp_all add: race_popping_def race_start_def)
  show "run pm4 [Processor] race_popping =
     Some (race_popping\<lparr>pc := AtDecode, gfx_ring := [], dcb := (0, 5), dequeued := [(0, 5)]\<rparr>)"
    by (rule run_race_pop)
  show "run pm4 [Processor, Processor, Processor]
     (race_popping\<lparr>pc := AtDecode, gfx_ring := [], dcb := (0, 5), dequeued := [(0, 5)]\<rparr>) =
   Some (race_popping\<lparr>pc := Returned, gfx_ring := [], dcb := (0, 5), gpu := ok_final,
                       dequeued := [(0, 5)], completes := 1\<rparr>)"
    by (rule run_race_rest)
qed

subsection \<open>C9: the no-op packet\<close>

text \<open>
  Claim C9. Decoding a \<^verbatim>\<open>Nop\<close> packet moves the cursor and changes nothing else,
  except that when the count is not 0 and the first payload word is the flip marker
  \<^verbatim>\<open>PatchedFlip\<close> the call \<^verbatim>\<open>IrqC::Signal(GfxFlip)\<close> is appended to the calls:
  no register, no memory and no other collaborator is touched, and without the marker (or
  with count 0) no call is made at all.
\<close>

theorem Nop_effect:
  assumes "hdr_type d (load32 (mem s) header) = 3"
    and "hdr_opcode d (load32 (mem s) header) = Nop"
  shows "body d (header, processed, s) =
           Some (Inr (advance d header processed
             (if hdr_count d (load32 (mem s) header) \<noteq> 0 \<and>
                 nop_data_block0 d (mem s) header = PatchedFlip d
              then s\<lparr>calls := calls s @ [IrqC_Signal_GfxFlip]\<rparr> else s)))"
  using assms by (simp add: body_type3 type3_def Let_def)

text \<open>The two packets of \<open>ok_buf\<close>: a plain no-op, and one with the flip marker.\<close>

theorem Nop_effect_witness:
  "hdr_type pm4 (load32 (mem (fresh False ok_buf)) 0) = 3 \<and>
   hdr_opcode pm4 (load32 (mem (fresh False ok_buf)) 0) = Nop \<and>
   body pm4 (0, 0, fresh False ok_buf) = Some (Inr (8, 8, fresh False ok_buf)) \<and>
   hdr_type pm4 (load32 (mem (fresh False ok_buf)) 8) = 3 \<and>
   hdr_opcode pm4 (load32 (mem (fresh False ok_buf)) 8) = Nop \<and>
   body pm4 (8, 8, fresh False ok_buf) =
     Some (Inr (20, 20, (fresh False ok_buf)\<lparr>calls := [IrqC_Signal_GfxFlip]\<rparr>))"
proof -
  let ?s = "fresh False ok_buf"
  have m: "mem ?s = ok_buf" by (simp add: fresh_def)
  have t: "hdr_type pm4 (load32 (mem ?s) 0) = 3" "hdr_type pm4 (load32 (mem ?s) 8) = 3"
    by (simp_all add: m ok_loads pm4_def)
  have o: "hdr_opcode pm4 (load32 (mem ?s) 0) = Nop" "hdr_opcode pm4 (load32 (mem ?s) 8) = Nop"
    by (simp_all add: m ok_loads pm4_def opcode_of_def)
  have c: "hdr_count pm4 (load32 (mem ?s) 0) = 0" "hdr_count pm4 (load32 (mem ?s) 8) \<noteq> 0"
    "nop_data_block0 pm4 (mem ?s) 8 = PatchedFlip pm4"
    by (simp_all add: m ok_loads pm4_def)
  have a: "advance pm4 0 0 s' = (8, 8, s')" "advance pm4 8 8 s' = (20, 20, s')"
    if "mem s' = ok_buf" for s'
    using that by (simp_all add: advance_def Let_def ok_loads pm4_def)
  from Nop_effect [OF t(1) o(1), of 0]
  have b0: "body pm4 (0, 0, ?s) = Some (Inr (8, 8, ?s))"
    by (simp add: c a [OF m])
  have m': "mem (?s\<lparr>calls := [IrqC_Signal_GfxFlip]\<rparr>) = ok_buf"
    by (simp add: m)
  have cs: "calls ?s = []" by (simp add: fresh_def)
  from Nop_effect [OF t(2) o(2), of 8]
  have b1: "body pm4 (8, 8, ?s) = Some (Inr (20, 20, ?s\<lparr>calls := [IrqC_Signal_GfxFlip]\<rparr>))"
    by (simp add: c a [OF m'] cs)
  from b0 b1 t o show ?thesis by simp
qed

subsection \<open>C10: termination\<close>

text \<open>
  Claim C10. When no decoded packet takes the processed count beyond \<open>2^32 - 1\<close> (as
  in every buffer whose packets end within it, and, with the header layout of the instance,
  in every buffer of at most \<open>2^32 - 65540\<close> bytes) and the handler of every decoded
  packet terminates, \<^verbatim>\<open>ProcessCmdList\<close> terminates, normally or with a fatal
  condition. Each iteration adds \<open>4 * (NumWords + 1)\<close> bytes to the processed count:
  at least one word always, and at least two words when the header's \<open>NumWords\<close> is
  at least one.
\<close>

theorem ProcessCmdList_terminates:
  assumes "no_overflow d size_in_bytes (cmdbuf, 0, s)"
    and "handlers_terminate d size_in_bytes (cmdbuf, 0, s)"
  shows "(\<exists>r. ProcessCmdList d cmdbuf size_in_bytes s = Some r) \<and>
         (\<forall>c c'. reach d size_in_bytes (cmdbuf, 0, s) c \<longrightarrow> fst (snd c) < size_in_bytes \<longrightarrow>
            body d c = Some (Inr c') \<longrightarrow>
            unat (fst (snd c')) =
              unat (fst (snd c)) +
              4 * (unat (hdr_NumWords d (load32 (mem (snd (snd c'))) (fst c))) + 1) \<and>
            unat (fst (snd c)) + 4 \<le> unat (fst (snd c')) \<and>
            (1 \<le> unat (hdr_NumWords d (load32 (mem (snd (snd c'))) (fst c))) \<longrightarrow>
               unat (fst (snd c)) + 8 \<le> unat (fst (snd c'))))"
proof -
  have "cmd_loop d size_in_bytes (cmdbuf, 0, s) \<noteq> None"
    using assms reach_start by (rule cmd_loop_returns)
  then have "\<exists>r. ProcessCmdList d cmdbuf size_in_bytes s = Some r"
    by (simp add: ProcessCmdList_def)
  moreover have "unat (fst (snd c')) =
              unat (fst (snd c)) +
              4 * (unat (hdr_NumWords d (load32 (mem (snd (snd c'))) (fst c))) + 1) \<and>
            unat (fst (snd c)) + 4 \<le> unat (fst (snd c')) \<and>
            (1 \<le> unat (hdr_NumWords d (load32 (mem (snd (snd c'))) (fst c))) \<longrightarrow>
               unat (fst (snd c)) + 8 \<le> unat (fst (snd c')))"
    if "reach d size_in_bytes (cmdbuf, 0, s) c" and "fst (snd c) < size_in_bytes"
      and "body d c = Some (Inr c')" for c c'
    using step_count [OF assms(1) that] by simp
  ultimately show ?thesis by blast
qed

text \<open>The run over \<open>ok_buf\<close> again.\<close>

theorem ProcessCmdList_terminates_witness:
  "no_overflow pm4 20 (0, 0, fresh False ok_buf) \<and>
   handlers_terminate pm4 20 (0, 0, fresh False ok_buf) \<and>
   (\<exists>r. ProcessCmdList pm4 0 20 (fresh False ok_buf) = Some r) \<and>
   reach pm4 20 (0, 0, fresh False ok_buf) (0, 0, fresh False ok_buf) \<and> (0 :: u32) < 20 \<and>
   body pm4 (0, 0, fresh False ok_buf) = Some (Inr (8, 8, fresh False ok_buf)) \<and>
   1 \<le> unat (hdr_NumWords pm4 (load32 (mem (fresh False ok_buf)) 0)) \<and>
   unat (0 :: u32) + 8 \<le> unat (8 :: u32)"
proof -
  note nw = packets_fit_no_overflow [OF packets_fit_ok]
  note T = ProcessCmdList_terminates [OF nw handlers_terminate_ok]
  have n: "1 \<le> unat (hdr_NumWords pm4 (load32 (mem (fresh False ok_buf)) 0))"
    using pm4_NumWords_bounds by simp
  from T have "\<exists>r. ProcessCmdList pm4 0 20 (fresh False ok_buf) = Some r" by blast
  with nw handlers_terminate_ok body_ok0 n show ?thesis
    by (simp add: reach_start)
qed

end
